theory Spec2Isabelle
  imports Complex_Main "HOL-Library.Word"
begin

unbundle bit_operations_syntax

section \<open>The platform shell (main_sdl.c)\<close>

text \<open>
  The shell is the only translation unit of the program at hand. Its calls into SDL
  and into the core (game, ray casters, renderer) are recorded, in program order, as a
  list of \<open>call\<close> values; what SDL answers (initialisation results, texture locks,
  pending events, performance counter readings) is an input of the model.
\<close>

subsection \<open>Configuration constants\<close>

text \<open>
  \<open>SCREEN_WIDTH\<close>, \<open>SCREEN_HEIGHT\<close> and \<open>SCREEN_SCALE\<close> are macros of a header
  that the shell includes; the shell is modelled for any values of them.
\<close>

record config =
  SCREEN_WIDTH :: nat
  SCREEN_HEIGHT :: nat
  SCREEN_SCALE :: nat

subsection \<open>SDL events and \<open>process_event\<close>\<close>

datatype SDL_Keycode =
    SDLK_ESCAPE | SDLK_UP | SDLK_DOWN | SDLK_LEFT | SDLK_RIGHT | SDLK_other nat

text \<open>A keyboard event carries the key symbol and the 8-bit \<open>repeat\<close> field.\<close>

datatype SDL_Event =
    SDL_QUIT
  | SDL_KEYDOWN SDL_Keycode "8 word"
  | SDL_KEYUP SDL_Keycode "8 word"
  | SDL_other_event nat

text \<open>
  The \<open>switch\<close> on the key symbol; \<open>p\<close> is "pressed?". The result is the returned
  flag and the two direction variables after the call.
\<close>

fun key_switch :: "bool \<Rightarrow> SDL_Keycode \<Rightarrow> int \<Rightarrow> int \<Rightarrow> bool \<times> int \<times> int" where
  "key_switch p SDLK_ESCAPE md rd = (True, md, rd)"
| "key_switch p SDLK_UP md rd = (False, (if p then 1 else 0), rd)"
| "key_switch p SDLK_DOWN md rd = (False, (if p then - 1 else 0), rd)"
| "key_switch p SDLK_LEFT md rd = (False, md, (if p then - 1 else 0))"
| "key_switch p SDLK_RIGHT md rd = (False, md, (if p then 1 else 0))"
| "key_switch p (SDLK_other k) md rd = (False, md, rd)"

fun process_event :: "SDL_Event \<Rightarrow> int \<Rightarrow> int \<Rightarrow> bool \<times> int \<times> int" where
  "process_event SDL_QUIT md rd = (True, md, rd)"
| "process_event (SDL_KEYDOWN k rp) md rd =
     (if rp = 0 then key_switch True k md rd else (False, md, rd))"
| "process_event (SDL_KEYUP k rp) md rd =
     (if rp = 0 then key_switch False k md rd else (False, md, rd))"
| "process_event (SDL_other_event t) md rd = (False, md, rd)"

text \<open>
  \<open>SDL_PollEvent\<close>: with a pending event, it removes the first one from the queue and
  hands it out; with none, it reports that and leaves the queue empty.
\<close>

fun SDL_PollEvent_queue :: "SDL_Event list \<Rightarrow> SDL_Event option \<times> SDL_Event list" where
  "SDL_PollEvent_queue [] = (None, [])"
| "SDL_PollEvent_queue (e # q) = (Some e, q)"

subsection \<open>The calls the shell makes\<close>

datatype caster = FloatCaster | FixedCaster

datatype buffer = FloatBuffer | FixedBuffer

datatype texture = FloatTexture | FixedTexture

datatype SDL_PixelFormat =
    SDL_PIXELFORMAT_ARGB8888 | SDL_PIXELFORMAT_RGBA8888 | SDL_PIXELFORMAT_ABGR8888

record SDL_Rect =
  rect_x :: nat
  rect_y :: nat
  rect_w :: nat
  rect_h :: nat

datatype call =
    SDL_Init
  | Printf
  | SDL_CreateWindow nat nat
  | GameConstruct
  | RayCasterFloatConstruct
  | RayCasterFixedConstruct
  | RendererConstruct caster
  | SDL_GetPerformanceFrequency
  | SDL_GetPerformanceCounter
  | SDL_CreateRenderer
  | SDL_CreateTexture texture SDL_PixelFormat nat nat
  | RendererTraceFrame caster buffer
  | RendererDrawFPS buffer "32 word"
  | SDL_LockTexture texture
  | Fprintf
  | Exit int
  | Memcpy texture buffer nat
  | SDL_UnlockTexture texture
  | SDL_RenderCopy texture SDL_Rect
  | SDL_RenderPresent
  | SDL_PollEvent
  | GameMove int int "64 word"
  | SDL_DestroyTexture texture
  | SDL_DestroyRenderer
  | SDL_DestroyWindow
  | Destruct caster
  | SDL_Quit

text \<open>How a run of the shell ends, as far as the model follows it.\<close>

datatype outcome =
    Returned int
  | Exited int
  | DivisionByZero
  | StillRunning

subsection \<open>\<open>draw_buffer\<close>\<close>

definition sizeof_uint32_t :: nat where
  "sizeof_uint32_t = 4"

text \<open>
  \<open>lock_ok\<close> is whether \<open>SDL_LockTexture\<close> returned zero. On failure the function
  prints and calls \<open>exit(1)\<close>; the flag returned tells whether it came back.
\<close>

definition draw_buffer :: "config \<Rightarrow> bool \<Rightarrow> texture \<Rightarrow> buffer \<Rightarrow> nat \<Rightarrow> call list \<times> bool" where
  "draw_buffer cfg lock_ok tex fb dx =
     (if \<not> lock_ok then ([SDL_LockTexture tex, Fprintf, Exit 1], False)
      else
        ([SDL_LockTexture tex,
          Memcpy tex fb (SCREEN_WIDTH cfg * SCREEN_HEIGHT cfg * sizeof_uint32_t),
          SDL_UnlockTexture tex,
          SDL_RenderCopy tex
            \<lparr>rect_x = dx * SCREEN_SCALE cfg, rect_y = 0,
             rect_w = SCREEN_WIDTH cfg * SCREEN_SCALE cfg,
             rect_h = SCREEN_HEIGHT cfg * SCREEN_SCALE cfg\<rparr>],
         True))"

subsection \<open>The state of the main loop\<close>

text \<open>
  The local variables of \<open>main\<close> that the loop reads and writes, and SDL's queue of
  pending events.
\<close>

record shell =
  moveDirection :: int
  rotateDirection :: int
  isExiting :: bool
  tickCounter :: "64 word"
  fpsCounter :: "32 word"
  fpsAccumulator :: "64 word"
  displayFPS :: "32 word"
  eventQueue :: "SDL_Event list"

text \<open>What SDL answers once per run.\<close>

record env =
  initOk :: bool
  windowOk :: bool
  tickFrequency :: "64 word"
  startCounter :: "64 word"
  startQueue :: "SDL_Event list"

text \<open>
  What SDL answers in one iteration: the two texture locks, the events that arrived
  since the last poll, and the performance counter.
\<close>

record frame_input =
  lockFixed :: bool
  lockFloat :: bool
  arrived :: "SDL_Event list"
  nextCounter :: "64 word"

datatype step = Continue shell | Abort outcome

text \<open>The event handling of one iteration: an \<open>if\<close> around one poll.\<close>

definition poll_events :: "SDL_Event list \<Rightarrow> shell \<Rightarrow> shell" where
  "poll_events new st =
     (case SDL_PollEvent_queue (eventQueue st @ new) of
        (None, q) \<Rightarrow> st\<lparr>eventQueue := q\<rparr>
      | (Some e, q) \<Rightarrow>
          (case process_event e (moveDirection st) (rotateDirection st) of
             (quit, md, rd) \<Rightarrow>
               st\<lparr>isExiting := quit, moveDirection := md, rotateDirection := rd,
                  eventQueue := q\<rparr>))"

text \<open>
  The frame-rate average. \<open>tickFrequency * fpsCounter / fpsAccumulator\<close> is computed
  in 64 bits and cast to 32; a zero accumulator is a division by zero.
\<close>

definition update_fps :: "64 word \<Rightarrow> 64 word \<Rightarrow> shell \<Rightarrow> shell option" where
  "update_fps freq ticks st =
     (let acc = fpsAccumulator st + ticks;
          cnt = fpsCounter st + 1
      in if 60 \<le> cnt then
           (if acc = 0 then None
            else Some (st\<lparr>displayFPS := ucast ((freq * ucast cnt) div acc),
                          fpsAccumulator := 0, fpsCounter := 0\<rparr>))
         else Some (st\<lparr>fpsAccumulator := acc, fpsCounter := cnt\<rparr>))"

text \<open>
  The last argument of \<open>GameMove\<close>: \<open>ticks / (SDL_GetPerformanceFrequency() >> 8)\<close>
  in unsigned 64-bit arithmetic. A frequency below 256 makes the divisor zero.
\<close>

definition elapsedTimeUnits :: "64 word \<Rightarrow> 64 word \<Rightarrow> 64 word option" where
  "elapsedTimeUnits freq ticks =
     (if drop_bit 8 freq = 0 then None else Some (ticks div drop_bit 8 freq))"

subsection \<open>One iteration of the main loop\<close>

definition render_views :: "shell \<Rightarrow> call list" where
  "render_views st =
     [RendererTraceFrame FloatCaster FloatBuffer,
      RendererTraceFrame FixedCaster FixedBuffer,
      RendererDrawFPS FixedBuffer (displayFPS st),
      RendererDrawFPS FloatBuffer (displayFPS st)]"

definition update_game :: "env \<Rightarrow> frame_input \<Rightarrow> shell \<Rightarrow> call list \<times> step" where
  "update_game env inp st =
     (let st1 = poll_events (arrived inp) st;
          ticks = nextCounter inp - tickCounter st1;
          st2 = st1\<lparr>tickCounter := nextCounter inp\<rparr>;
          pre = [SDL_PollEvent, SDL_GetPerformanceCounter]
      in case update_fps (tickFrequency env) ticks st2 of
           None \<Rightarrow> (pre, Abort DivisionByZero)
         | Some st3 \<Rightarrow>
             (case elapsedTimeUnits (tickFrequency env) ticks of
                None \<Rightarrow> (pre @ [SDL_GetPerformanceFrequency], Abort DivisionByZero)
              | Some t \<Rightarrow>
                  (pre @ [SDL_GetPerformanceFrequency,
                          GameMove (moveDirection st3) (rotateDirection st3) t],
                   Continue st3)))"

definition frame :: "config \<Rightarrow> env \<Rightarrow> frame_input \<Rightarrow> shell \<Rightarrow> call list \<times> step" where
  "frame cfg env inp st =
     (case draw_buffer cfg (lockFixed inp) FixedTexture FixedBuffer 0 of
        (c1, ok1) \<Rightarrow>
          if \<not> ok1 then (render_views st @ c1, Abort (Exited 1))
          else
            (case draw_buffer cfg (lockFloat inp) FloatTexture FloatBuffer
                    (SCREEN_WIDTH cfg + 1) of
               (c2, ok2) \<Rightarrow>
                 if \<not> ok2 then (render_views st @ c1 @ c2, Abort (Exited 1))
                 else
                   (case update_game env inp st of
                      (c3, r) \<Rightarrow>
                        (render_views st @ c1 @ c2 @ [SDL_RenderPresent] @ c3, r))))"

subsection \<open>The loop and \<open>main\<close>\<close>

text \<open>
  The loop runs as long as \<open>isExiting\<close> is false, which may be forever. The list of
  per-iteration inputs bounds the part of the run that the model follows: when it is
  used up and the loop has not ended, the outcome is \<open>StillRunning\<close>.
\<close>

fun main_loop :: "config \<Rightarrow> env \<Rightarrow> frame_input list \<Rightarrow> shell \<Rightarrow> call list \<times> step" where
  "main_loop cfg env [] st =
     (if isExiting st then ([], Continue st) else ([], Abort StillRunning))"
| "main_loop cfg env (inp # inps) st =
     (if isExiting st then ([], Continue st)
      else
        (case frame cfg env inp st of
           (cs, Abort out) \<Rightarrow> (cs, Abort out)
         | (cs, Continue st') \<Rightarrow>
             (case main_loop cfg env inps st' of (cs', r) \<Rightarrow> (cs @ cs', r))))"

definition setup_calls :: "config \<Rightarrow> call list" where
  "setup_calls cfg =
     [SDL_Init,
      SDL_CreateWindow (SCREEN_SCALE cfg * (SCREEN_WIDTH cfg * 2 + 1))
        (SCREEN_SCALE cfg * SCREEN_HEIGHT cfg),
      GameConstruct,
      RayCasterFloatConstruct, RendererConstruct FloatCaster,
      RayCasterFixedConstruct, RendererConstruct FixedCaster,
      SDL_GetPerformanceFrequency, SDL_GetPerformanceCounter,
      SDL_CreateRenderer,
      SDL_CreateTexture FixedTexture SDL_PIXELFORMAT_ABGR8888
        (SCREEN_WIDTH cfg) (SCREEN_HEIGHT cfg),
      SDL_CreateTexture FloatTexture SDL_PIXELFORMAT_ABGR8888
        (SCREEN_WIDTH cfg) (SCREEN_HEIGHT cfg)]"

definition cleanup_calls :: "call list" where
  "cleanup_calls =
     [SDL_DestroyTexture FloatTexture, SDL_DestroyTexture FixedTexture,
      SDL_DestroyRenderer, SDL_DestroyWindow,
      Destruct FloatCaster, Destruct FixedCaster]"

definition initial_shell :: "env \<Rightarrow> shell" where
  "initial_shell env =
     \<lparr>moveDirection = 0, rotateDirection = 0, isExiting = False,
      tickCounter = startCounter env, fpsCounter = 0, fpsAccumulator = 0,
      displayFPS = 0, eventQueue = startQueue env\<rparr>"

definition main :: "config \<Rightarrow> env \<Rightarrow> frame_input list \<Rightarrow> call list \<times> outcome" where
  "main cfg env inps =
     (if \<not> initOk env then ([SDL_Init, Printf, SDL_Quit], Returned 0)
      else if \<not> windowOk env then
        ([SDL_Init,
          SDL_CreateWindow (SCREEN_SCALE cfg * (SCREEN_WIDTH cfg * 2 + 1))
            (SCREEN_SCALE cfg * SCREEN_HEIGHT cfg),
          Printf, SDL_Quit], Returned 0)
      else
        (case main_loop cfg env inps (initial_shell env) of
           (cs, Abort out) \<Rightarrow> (setup_calls cfg @ cs, out)
         | (cs, Continue st) \<Rightarrow>
             (setup_calls cfg @ cs @ cleanup_calls @ [SDL_Quit], Returned 0)))"

subsection \<open>The buffers and textures of \<open>main\<close>\<close>

text \<open>
  Both frame buffers are declared as \<open>uint32_t [SCREEN_WIDTH * SCREEN_HEIGHT]\<close>.
\<close>

definition buffer_elements :: "config \<Rightarrow> buffer \<Rightarrow> nat" where
  "buffer_elements cfg b = SCREEN_WIDTH cfg * SCREEN_HEIGHT cfg"

definition buffer_bytes :: "config \<Rightarrow> buffer \<Rightarrow> nat" where
  "buffer_bytes cfg b = buffer_elements cfg b * sizeof_uint32_t"

text \<open>Bytes of a texture of the given format and size, rows packed.\<close>

fun bytes_per_pixel :: "SDL_PixelFormat \<Rightarrow> nat" where
  "bytes_per_pixel SDL_PIXELFORMAT_ARGB8888 = 4"
| "bytes_per_pixel SDL_PIXELFORMAT_RGBA8888 = 4"
| "bytes_per_pixel SDL_PIXELFORMAT_ABGR8888 = 4"

fun texture_of :: "buffer \<Rightarrow> texture" where
  "texture_of FixedBuffer = FixedTexture"
| "texture_of FloatBuffer = FloatTexture"

text \<open>
  What the upload of a buffer has to satisfy: a texture is created in ABGR8888 with the
  screen's width and height, and a copy moves the whole buffer, no more and no less,
  into the texture that belongs to it.
\<close>

fun upload_matches :: "config \<Rightarrow> call \<Rightarrow> bool" where
  "upload_matches cfg (SDL_CreateTexture t f w h) =
     (f = SDL_PIXELFORMAT_ABGR8888 \<and> w = SCREEN_WIDTH cfg \<and> h = SCREEN_HEIGHT cfg)"
| "upload_matches cfg (Memcpy t b n) =
     (t = texture_of b \<and> n = buffer_bytes cfg b \<and>
      n = SCREEN_WIDTH cfg * SCREEN_HEIGHT cfg * bytes_per_pixel SDL_PIXELFORMAT_ABGR8888)"
| "upload_matches cfg c = True"

text \<open>
  A texture is created by \<open>SDL_CreateTexture\<close>. \<open>copies_fit\<close> walks a run with the
  size in bytes of the pixel data of every texture created so far: no texture is
  created twice, and every copy goes into a texture that exists by then and moves
  exactly as many bytes as that texture's pixels take.
\<close>

fun is_create :: "call \<Rightarrow> bool" where
  "is_create (SDL_CreateTexture t f w h) = True"
| "is_create c = False"

fun copies_fit :: "(texture \<Rightarrow> nat option) \<Rightarrow> call list \<Rightarrow> bool" where
  "copies_fit sz [] = True"
| "copies_fit sz (SDL_CreateTexture t f w h # cs) =
     (sz t = None \<and> copies_fit (sz(t \<mapsto> w * h * bytes_per_pixel f)) cs)"
| "copies_fit sz (Memcpy t b n # cs) = (sz t = Some n \<and> copies_fit sz cs)"
| "copies_fit sz (c # cs) = copies_fit sz cs"

text \<open>
  What \<open>memcpy\<close> moves. A buffer lies in memory as the four bytes of each element,
  one element after the other; the bytes of an element are written here lowest first,
  and since the copy moves bytes and the statements below compare bytes with bytes, the
  other byte order gives the same. \<open>memcpy dst src n\<close> is the destination after the
  first \<open>n\<close> bytes of the source have been copied to its start.
\<close>

definition bytes_of_uint32 :: "32 word \<Rightarrow> 8 word list" where
  "bytes_of_uint32 w =
     [ucast w, ucast (drop_bit 8 w), ucast (drop_bit 16 w), ucast (drop_bit 24 w)]"

definition buffer_image :: "32 word list \<Rightarrow> 8 word list" where
  "buffer_image fb = concat (map bytes_of_uint32 fb)"

definition memcpy :: "8 word list \<Rightarrow> 8 word list \<Rightarrow> nat \<Rightarrow> 8 word list" where
  "memcpy dst src n = take n src @ drop n dst"

text \<open>
  The bytes of the pixel in column \<open>x\<close> of row \<open>y\<close> of locked texture memory whose
  rows are \<open>pitch\<close> bytes apart. \<open>draw_buffer\<close> passes the address of its variable
  \<open>pitch\<close> to \<open>SDL_LockTexture\<close> and does not read it afterwards: it copies the
  buffer as one block, which is the layout of a texture whose rows are packed, width
  times bytes per pixel apart.
\<close>

definition texel_bytes ::
  "SDL_PixelFormat \<Rightarrow> nat \<Rightarrow> 8 word list \<Rightarrow> nat \<Rightarrow> nat \<Rightarrow> 8 word list" where
  "texel_bytes f pitch mem x y =
     take (bytes_per_pixel f) (drop (y * pitch + x * bytes_per_pixel f) mem)"

text \<open>
  Modelled from the spec: the colour format of the core, whose colours are packed in
  code that is not at hand: one 32-bit value per pixel, alpha, blue, green, red from
  the highest byte down.
\<close>

definition pack_abgr :: "8 word \<Rightarrow> 8 word \<Rightarrow> 8 word \<Rightarrow> 8 word \<Rightarrow> 32 word" where
  "pack_abgr a b g r =
     push_bit 24 (ucast a) OR push_bit 16 (ucast b) OR push_bit 8 (ucast g) OR ucast r"

text \<open>
  The red, green, blue and alpha that SDL reads from a pixel of a packed 32-bit format:
  the name of the format lists the channels from the highest byte down.
\<close>

fun read_texel :: "SDL_PixelFormat \<Rightarrow> 32 word \<Rightarrow> 8 word \<times> 8 word \<times> 8 word \<times> 8 word" where
  "read_texel SDL_PIXELFORMAT_ARGB8888 p =
     (ucast (drop_bit 16 p), ucast (drop_bit 8 p), ucast p, ucast (drop_bit 24 p))"
| "read_texel SDL_PIXELFORMAT_RGBA8888 p =
     (ucast (drop_bit 24 p), ucast (drop_bit 16 p), ucast (drop_bit 8 p), ucast p)"
| "read_texel SDL_PIXELFORMAT_ABGR8888 p =
     (ucast p, ucast (drop_bit 8 p), ucast (drop_bit 16 p), ucast (drop_bit 24 p))"

subsection \<open>Predicates on calls\<close>

fun directions_in_domain :: "call \<Rightarrow> bool" where
  "directions_in_domain (GameMove m r t) =
     ((m = - 1 \<or> m = 0 \<or> m = 1) \<and> (r = - 1 \<or> r = 0 \<or> r = 1))"
| "directions_in_domain c = True"

definition dirs_ok :: "shell \<Rightarrow> bool" where
  "dirs_ok st =
     ((moveDirection st = - 1 \<or> moveDirection st = 0 \<or> moveDirection st = 1) \<and>
      (rotateDirection st = - 1 \<or> rotateDirection st = 0 \<or> rotateDirection st = 1))"

fun is_poll :: "call \<Rightarrow> bool" where
  "is_poll SDL_PollEvent = True"
| "is_poll c = False"

fun is_trace :: "call \<Rightarrow> bool" where
  "is_trace (RendererTraceFrame c b) = True"
| "is_trace c = False"

fun traced_buffer :: "call \<Rightarrow> buffer option" where
  "traced_buffer (RendererTraceFrame c b) = Some b"
| "traced_buffer c = None"

fun is_move :: "call \<Rightarrow> bool" where
  "is_move (GameMove m r t) = True"
| "is_move c = False"

text \<open>The calls that bring a frame buffer to the display.\<close>

fun presents :: "call \<Rightarrow> bool" where
  "presents (SDL_LockTexture t) = True"
| "presents (Memcpy t b n) = True"
| "presents (SDL_UnlockTexture t) = True"
| "presents (SDL_RenderCopy t r) = True"
| "presents SDL_RenderPresent = True"
| "presents c = False"

text \<open>The four stages of the data flow, and the stage a call belongs to.\<close>

datatype phase = Poll | Update | Render | Present

fun phase_of :: "call \<Rightarrow> phase option" where
  "phase_of SDL_PollEvent = Some Poll"
| "phase_of (GameMove m r t) = Some Update"
| "phase_of (RendererTraceFrame c b) = Some Render"
| "phase_of (RendererDrawFPS b v) = Some Render"
| "phase_of (SDL_LockTexture t) = Some Present"
| "phase_of (Memcpy t b n) = Some Present"
| "phase_of (SDL_UnlockTexture t) = Some Present"
| "phase_of (SDL_RenderCopy t r) = Some Present"
| "phase_of SDL_RenderPresent = Some Present"
| "phase_of c = None"

definition phases :: "call list \<Rightarrow> phase list" where
  "phases cs = List.map_filter phase_of cs"

fun next_phase :: "phase \<Rightarrow> phase" where
  "next_phase Poll = Update"
| "next_phase Update = Render"
| "next_phase Render = Present"
| "next_phase Present = Poll"

text \<open>
  \<open>follows_cycle p qs\<close>: coming from stage \<open>p\<close>, the stages \<open>qs\<close> walk through the
  cycle poll, update, render, present, each stage lasting any number of calls.
\<close>

fun follows_cycle :: "phase \<Rightarrow> phase list \<Rightarrow> bool" where
  "follows_cycle p [] = True"
| "follows_cycle p (q # qs) = ((q = p \<or> q = next_phase p) \<and> follows_cycle q qs)"

text \<open>The order in which one iteration of the loop goes through the stages.\<close>

fun loop_rank :: "phase \<Rightarrow> nat" where
  "loop_rank Render = 0"
| "loop_rank Present = 1"
| "loop_rank Poll = 2"
| "loop_rank Update = 3"

text \<open>
  The time argument of a \<open>GameMove\<close> call equals \<open>(ticks * 256) / frequency\<close>, in
  exact arithmetic rounded down.
\<close>

fun time_normalized :: "64 word \<Rightarrow> 64 word \<Rightarrow> call \<Rightarrow> bool" where
  "time_normalized freq ticks (GameMove m r t) =
     (unat t = (unat ticks * 256) div unat freq)"
| "time_normalized freq ticks c = True"

text \<open>The time argument is \<open>ticks\<close> divided by the frequency's 256th part.\<close>

fun time_scaled :: "64 word \<Rightarrow> 64 word \<Rightarrow> call \<Rightarrow> bool" where
  "time_scaled freq ticks (GameMove m r t) =
     (unat t = unat ticks div (unat freq div 256) \<and>
      (unat ticks * 256) div unat freq \<le> unat t)"
| "time_scaled freq ticks c = True"

text \<open>The frame-rate values handed to \<open>RendererDrawFPS\<close>, in order.\<close>

fun fps_value :: "call \<Rightarrow> 32 word option" where
  "fps_value (RendererDrawFPS b v) = Some v"
| "fps_value c = None"

definition fps_values :: "call list \<Rightarrow> 32 word list" where
  "fps_values cs = List.map_filter fps_value cs"

text \<open>Calls that only the body of the frame loop makes.\<close>

fun in_loop :: "call \<Rightarrow> bool" where
  "in_loop (RendererTraceFrame c b) = True"
| "in_loop (RendererDrawFPS b v) = True"
| "in_loop (SDL_LockTexture t) = True"
| "in_loop (Memcpy t b n) = True"
| "in_loop (SDL_UnlockTexture t) = True"
| "in_loop (SDL_RenderCopy t r) = True"
| "in_loop SDL_RenderPresent = True"
| "in_loop SDL_PollEvent = True"
| "in_loop (GameMove m r t) = True"
| "in_loop c = False"

text \<open>Calls that the body of the frame loop can make at all.\<close>

fun loop_call :: "call \<Rightarrow> bool" where
  "loop_call SDL_GetPerformanceCounter = True"
| "loop_call SDL_GetPerformanceFrequency = True"
| "loop_call Fprintf = True"
| "loop_call (Exit n) = True"
| "loop_call c = in_loop c"

fun constructor_of :: "caster \<Rightarrow> call" where
  "constructor_of FloatCaster = RayCasterFloatConstruct"
| "constructor_of FixedCaster = RayCasterFixedConstruct"

text \<open>
  The life cycle of a ray caster in a run: constructed once, with no call of the loop
  before that; destructed once, with no call of the loop from then on.
\<close>

definition lifecycle :: "call list \<Rightarrow> caster \<Rightarrow> bool" where
  "lifecycle tr c =
     (count_list tr (constructor_of c) = 1 \<and>
      \<not> list_ex in_loop (takeWhile (\<lambda>x. x \<noteq> constructor_of c) tr) \<and>
      count_list tr (Destruct c) = 1 \<and>
      \<not> list_ex in_loop (dropWhile (\<lambda>x. x \<noteq> Destruct c) tr))"

text \<open>The same without the promise that the teardown happens.\<close>

definition lifecycle_started :: "call list \<Rightarrow> caster \<Rightarrow> bool" where
  "lifecycle_started tr c =
     (count_list tr (constructor_of c) = 1 \<and>
      \<not> list_ex in_loop (takeWhile (\<lambda>x. x \<noteq> constructor_of c) tr) \<and>
      count_list tr (Destruct c) \<le> 1 \<and>
      \<not> list_ex in_loop (dropWhile (\<lambda>x. x \<noteq> Destruct c) tr))"

section \<open>The core behind the shell's calls\<close>

text \<open>
  The renderer and the game state are compiled from other translation units. The shell
  fixes how they are called; what they do is taken from the specification, with every
  quantity the specification leaves open (colours, speeds, the ray caster itself, the
  place of the frame-rate readout) as a parameter.
\<close>

subsection \<open>Pose, map and ray hits\<close>

text \<open>
  Modelled from the spec: the data model of the core (its section 3), whose
  declarations are in headers that are not at hand. A map is a grid of cells, empty or
  wall of some type; a pose is a position in map units and a facing angle; a ray hit is
  a distance, the face that was struck and the type of the struck cell; a ray caster
  gives the hit of a column for a pose and a map.
\<close>

datatype cell = Empty | Wall nat

type_synonym Map = "cell list list"

record Pose =
  posX :: real
  posY :: real
  facing :: real

datatype face = XFace | YFace

record RayHit =
  hitDistance :: real
  hitFace :: face
  hitCell :: nat

type_synonym RayCaster = "Pose \<Rightarrow> Map \<Rightarrow> nat \<Rightarrow> RayHit"

text \<open>
  Modelled from the spec: the solid cells of a map. \<open>cell_at\<close> is the kind of the
  cell in column \<open>cx\<close> of row \<open>cy\<close>; outside the grid nothing is traversable. A
  position lies in the cell of its coordinates rounded down.
\<close>

definition cell_at :: "Map \<Rightarrow> int \<Rightarrow> int \<Rightarrow> cell" where
  "cell_at m cx cy =
     (if 0 \<le> cy \<and> nat cy < length m \<and> 0 \<le> cx \<and> nat cx < length (m ! nat cy)
      then m ! nat cy ! nat cx else Wall 0)"

definition solid_at :: "Map \<Rightarrow> real \<Rightarrow> real \<Rightarrow> bool" where
  "solid_at m x y = (cell_at m \<lfloor>x\<rfloor> \<lfloor>y\<rfloor> \<noteq> Empty)"

subsection \<open>\<open>RendererTraceFrame\<close>\<close>

text \<open>
  Modelled from the spec: the constants of the renderer, which the specification does
  not fix: the half-height of the wall slice for a hit distance, and the colours.
\<close>

record palette =
  sliceHalfHeight :: "real \<Rightarrow> nat"
  ceilingColor :: "32 word"
  floorColor :: "32 word"
  wallColor :: "nat \<Rightarrow> face \<Rightarrow> 32 word"

text \<open>
  Modelled from the spec: the colour of row \<open>y\<close> of a column whose ray hit \<open>h\<close>.
  The slice is centred on the middle row, its half-height clipped to half the screen
  height; ceiling above it, floor below it, the wall's colour within.
\<close>

definition column_pixel :: "config \<Rightarrow> palette \<Rightarrow> RayHit \<Rightarrow> nat \<Rightarrow> 32 word" where
  "column_pixel cfg pal h y =
     (let half = SCREEN_HEIGHT cfg div 2;
          hh = min (sliceHalfHeight pal (hitDistance h)) half
      in if y < half - hh then ceilingColor pal
         else if y < half + hh then wallColor pal (hitCell h) (hitFace h)
         else floorColor pal)"

text \<open>
  Modelled from the spec: the loop over the rows of one column. Pixel \<open>(x, y)\<close> is
  element \<open>y * SCREEN_WIDTH + x\<close> of the buffer, the layout in which the shell
  uploads it.
\<close>

definition fill_column ::
  "config \<Rightarrow> palette \<Rightarrow> RayHit \<Rightarrow> nat \<Rightarrow> nat \<Rightarrow> 32 word list \<Rightarrow> 32 word list" where
  "fill_column cfg pal h x rows fb =
     fold (\<lambda>y b. b[y * SCREEN_WIDTH cfg + x := column_pixel cfg pal h y]) [0..<rows] fb"

text \<open>
  Modelled from the spec: \<open>RendererTraceFrame\<close>, which is not in the shell's
  translation unit. For every screen column it asks the ray caster for a hit and fills
  the column's pixels.
\<close>

definition trace_columns ::
  "config \<Rightarrow> palette \<Rightarrow> RayCaster \<Rightarrow> Pose \<Rightarrow> Map \<Rightarrow> nat \<Rightarrow> 32 word list \<Rightarrow> 32 word list" where
  "trace_columns cfg pal rc ps m cols fb =
     fold (\<lambda>x b. fill_column cfg pal (rc ps m x) x (SCREEN_HEIGHT cfg) b) [0..<cols] fb"

definition TraceFrame ::
  "config \<Rightarrow> palette \<Rightarrow> RayCaster \<Rightarrow> Pose \<Rightarrow> Map \<Rightarrow> 32 word list \<Rightarrow> 32 word list" where
  "TraceFrame cfg pal rc ps m fb = trace_columns cfg pal rc ps m (SCREEN_WIDTH cfg) fb"

subsection \<open>\<open>RendererDrawFPS\<close>\<close>

text \<open>
  Modelled from the spec: the reserved region of the frame-rate readout and the colour
  of each of its pixels for a value, neither of which the specification fixes; and the
  loops that write the region row by row.
\<close>

record readout =
  regionLeft :: nat
  regionTop :: nat
  regionWidth :: nat
  regionHeight :: nat
  glyphPixel :: "32 word \<Rightarrow> nat \<Rightarrow> nat \<Rightarrow> 32 word"

definition in_region :: "config \<Rightarrow> readout \<Rightarrow> nat \<Rightarrow> bool" where
  "in_region cfg ro i =
     (regionLeft ro \<le> i mod SCREEN_WIDTH cfg \<and>
      i mod SCREEN_WIDTH cfg < regionLeft ro + regionWidth ro \<and>
      regionTop ro \<le> i div SCREEN_WIDTH cfg \<and>
      i div SCREEN_WIDTH cfg < regionTop ro + regionHeight ro)"

definition draw_row ::
  "config \<Rightarrow> readout \<Rightarrow> 32 word \<Rightarrow> nat \<Rightarrow> nat \<Rightarrow> 32 word list \<Rightarrow> 32 word list" where
  "draw_row cfg ro v j cols fb =
     fold (\<lambda>k b. b[(regionTop ro + j) * SCREEN_WIDTH cfg + (regionLeft ro + k) :=
                     glyphPixel ro v k j]) [0..<cols] fb"

definition draw_rows ::
  "config \<Rightarrow> readout \<Rightarrow> 32 word \<Rightarrow> nat \<Rightarrow> 32 word list \<Rightarrow> 32 word list" where
  "draw_rows cfg ro v rows fb =
     fold (\<lambda>j b. draw_row cfg ro v j (regionWidth ro) b) [0..<rows] fb"

text \<open>
  Modelled from the spec: \<open>RendererDrawFPS\<close>, which is not in the shell's translation
  unit. It draws the readout of the value into its region. A buffer of another size
  than the screen's, or a region that leaves the screen, is refused.
\<close>

definition DrawFPS ::
  "config \<Rightarrow> readout \<Rightarrow> 32 word list \<Rightarrow> 32 word \<Rightarrow> 32 word list option" where
  "DrawFPS cfg ro fb v =
     (if length fb = SCREEN_WIDTH cfg * SCREEN_HEIGHT cfg \<and>
         regionLeft ro + regionWidth ro \<le> SCREEN_WIDTH cfg \<and>
         regionTop ro + regionHeight ro \<le> SCREEN_HEIGHT cfg
      then Some (draw_rows cfg ro v (regionHeight ro) fb)
      else None)"

subsection \<open>\<open>GameMove\<close>\<close>

text \<open>
  Modelled from the spec: the game state, a pose and the map, and the constants of the
  movement, which the specification does not fix: the two speeds and the unit vector
  of a facing angle.
\<close>

record Game =
  pose :: Pose
  worldMap :: Map

record motion =
  moveSpeed :: real
  angularSpeed :: real
  heading :: "real \<Rightarrow> real \<times> real"

text \<open>
  Modelled from the spec: \<open>GameMove\<close>, which is not in the shell's translation unit.
  The facing angle turns by time, angular speed and rotation direction. The position
  moves along the facing vector by time, speed and move direction; the new position is
  checked against the map before it is committed, and kept out when its cell is solid.
\<close>

definition GameMove_spec :: "motion \<Rightarrow> Game \<Rightarrow> int \<Rightarrow> int \<Rightarrow> real \<Rightarrow> Game" where
  "GameMove_spec mo g m r t =
     (let p = pose g;
          (dx, dy) = heading mo (facing p);
          nx = posX p + of_int m * t * moveSpeed mo * dx;
          ny = posY p + of_int m * t * moveSpeed mo * dy;
          a = facing p + t * angularSpeed mo * of_int r
      in if m \<noteq> 0 \<and> \<not> solid_at (worldMap g) nx ny
         then g\<lparr>pose := \<lparr>posX = nx, posY = ny, facing = a\<rparr>\<rparr>
         else g\<lparr>pose := p\<lparr>facing := a\<rparr>\<rparr>)"

text \<open>
  Whether the position is in a solid cell, and a sequence of \<open>GameMove\<close> calls, each
  with its directions and time.
\<close>

definition in_solid :: "Game \<Rightarrow> bool" where
  "in_solid g = solid_at (worldMap g) (posX (pose g)) (posY (pose g))"

fun moves :: "motion \<Rightarrow> (int \<times> int \<times> real) list \<Rightarrow> Game \<Rightarrow> Game" where
  "moves mo [] g = g"
| "moves mo ((m, r, t) # ms) g = moves mo ms (GameMove_spec mo g m r t)"

section \<open>Sample runs\<close>

text \<open>
  A two by two screen; a counter of a thousand million ticks per second, and one of ten
  million; three iterations in which the up and left keys are pressed and the window is
  closed; an iteration in which the first texture cannot be locked.
\<close>

definition cfg0 :: config where
  "cfg0 = \<lparr>SCREEN_WIDTH = 2, SCREEN_HEIGHT = 2, SCREEN_SCALE = 1\<rparr>"

definition env0 :: env where
  "env0 = \<lparr>initOk = True, windowOk = True, tickFrequency = 1000000000,
            startCounter = 0, startQueue = []\<rparr>"

definition env7 :: env where
  "env7 = \<lparr>initOk = True, windowOk = True, tickFrequency = 10000000,
            startCounter = 0, startQueue = []\<rparr>"

definition in1 :: frame_input where
  "in1 = \<lparr>lockFixed = True, lockFloat = True,
           arrived = [SDL_KEYDOWN SDLK_UP 0, SDL_KEYDOWN SDLK_LEFT 0],
           nextCounter = 16000000\<rparr>"

definition in2 :: frame_input where
  "in2 = \<lparr>lockFixed = True, lockFloat = True, arrived = [], nextCounter = 33000000\<rparr>"

definition in3 :: frame_input where
  "in3 = \<lparr>lockFixed = True, lockFloat = True, arrived = [SDL_QUIT],
           nextCounter = 50000000\<rparr>"

text \<open>The loop's variables after the first of the three iterations.\<close>

definition st1 :: shell where
  "st1 = \<lparr>moveDirection = 1, rotateDirection = 0, isExiting = False,
           tickCounter = 16000000, fpsCounter = 1, fpsAccumulator = 16000000,
           displayFPS = 0, eventQueue = [SDL_KEYDOWN SDLK_LEFT 0]\<rparr>"

definition in7 :: frame_input where
  "in7 = \<lparr>lockFixed = True, lockFloat = True, arrived = [], nextCounter = 39062\<rparr>"

definition in_unlocked :: frame_input where
  "in_unlocked = \<lparr>lockFixed = False, lockFloat = True, arrived = [],
                   nextCounter = 16000000\<rparr>"

text \<open>
  For the core: two colours and no wall slice, a three by three map with one empty cell
  in the middle, a pose in the middle of it, a ray caster that always hits at the same
  distance, a readout of one pixel, and a motion that always heads along the x axis.
\<close>

definition pal0 :: palette where
  "pal0 = \<lparr>sliceHalfHeight = (\<lambda>d. 0), ceilingColor = 1, floorColor = 2,
            wallColor = (\<lambda>t f. 3)\<rparr>"

definition map0 :: Map where
  "map0 = [[Wall 1, Wall 1, Wall 1], [Wall 1, Empty, Wall 1], [Wall 1, Wall 1, Wall 1]]"

definition pose0 :: Pose where
  "pose0 = \<lparr>posX = 3 / 2, posY = 3 / 2, facing = 0\<rparr>"

definition rc0 :: RayCaster where
  "rc0 ps m x = \<lparr>hitDistance = 1 / 2, hitFace = XFace, hitCell = 1\<rparr>"

definition ro0 :: readout where
  "ro0 = \<lparr>regionLeft = 0, regionTop = 0, regionWidth = 1, regionHeight = 1,
           glyphPixel = (\<lambda>v k j. 7)\<rparr>"

definition mo0 :: motion where
  "mo0 = \<lparr>moveSpeed = 1, angularSpeed = 1, heading = (\<lambda>a. (1, 0))\<rparr>"

definition game0 :: Game where
  "game0 = \<lparr>pose = pose0, worldMap = map0\<rparr>"

section \<open>Properties of the shell\<close>

lemma key_switch_domain:
  "key_switch p k md rd = (q, md', rd') \<Longrightarrow>
   (md' = md \<or> md' = - 1 \<or> md' = 0 \<or> md' = 1) \<and> (rd' = rd \<or> rd' = - 1 \<or> rd' = 0 \<or> rd' = 1)"
  by (cases k) (auto split: if_splits)

lemma process_event_domain:
  "process_event e md rd = (q, md', rd') \<Longrightarrow>
   (md' = md \<or> md' = - 1 \<or> md' = 0 \<or> md' = 1) \<and> (rd' = rd \<or> rd' = - 1 \<or> rd' = 0 \<or> rd' = 1)"
  by (cases e) (auto split: if_splits dest: key_switch_domain)

lemma poll_events_dirs: "dirs_ok st \<Longrightarrow> dirs_ok (poll_events new st)"
  unfolding poll_events_def dirs_ok_def
  by (cases "eventQueue st @ new")
     (auto split: prod.splits dest!: process_event_domain)

lemma update_fps_fields:
  "update_fps f t st = Some st' \<Longrightarrow>
   moveDirection st' = moveDirection st \<and> rotateDirection st' = rotateDirection st \<and>
   isExiting st' = isExiting st \<and> eventQueue st' = eventQueue st \<and> tickCounter st' = tickCounter st"
  by (auto simp: update_fps_def Let_def split: if_splits)

lemma update_game_Continue:
  assumes "update_game env inp st = (cs, Continue st')"
  shows "\<exists>t. elapsedTimeUnits (tickFrequency env) (nextCounter inp - tickCounter st) = Some t \<and>
     cs = [SDL_PollEvent, SDL_GetPerformanceCounter, SDL_GetPerformanceFrequency,
           GameMove (moveDirection st') (rotateDirection st') t]"
    and "update_fps (tickFrequency env) (nextCounter inp - tickCounter st)
           ((poll_events (arrived inp) st)\<lparr>tickCounter := nextCounter inp\<rparr>) = Some st'"
proof -
  have tc: "tickCounter (poll_events (arrived inp) st) = tickCounter st"
    by (simp add: poll_events_def split: prod.splits option.splits)
  show "\<exists>t. elapsedTimeUnits (tickFrequency env) (nextCounter inp - tickCounter st) = Some t \<and>
     cs = [SDL_PollEvent, SDL_GetPerformanceCounter, SDL_GetPerformanceFrequency,
           GameMove (moveDirection st') (rotateDirection st') t]"
    using assms by (auto simp: update_game_def Let_def tc split: option.splits)
  show "update_fps (tickFrequency env) (nextCounter inp - tickCounter st)
           ((poll_events (arrived inp) st)\<lparr>tickCounter := nextCounter inp\<rparr>) = Some st'"
    using assms by (auto simp: update_game_def Let_def tc split: option.splits)
qed

lemma update_game_calls:
  "fst (update_game env inp st) = [SDL_PollEvent, SDL_GetPerformanceCounter] \<or>
   fst (update_game env inp st) = [SDL_PollEvent, SDL_GetPerformanceCounter, SDL_GetPerformanceFrequency] \<or>
   (\<exists>st' t. update_game env inp st = ([SDL_PollEvent, SDL_GetPerformanceCounter, SDL_GetPerformanceFrequency,
           GameMove (moveDirection st') (rotateDirection st') t], Continue st'))"
  by (auto simp: update_game_def Let_def split: option.splits)

lemma frame_Continue:
  assumes "frame cfg env inp st = (cs, Continue st')"
  shows "\<exists>c3. update_game env inp st = (c3, Continue st') \<and>
     cs = render_views st @ fst (draw_buffer cfg True FixedTexture FixedBuffer 0) @
          fst (draw_buffer cfg True FloatTexture FloatBuffer (SCREEN_WIDTH cfg + 1)) @ [SDL_RenderPresent] @ c3"
  using assms
  by (auto simp: frame_def draw_buffer_def split: prod.splits if_splits)


lemma frame_dirs:
  assumes "dirs_ok st" and "frame cfg env inp st = (cs, r)"
  shows "list_all directions_in_domain cs" and "r = Continue st' \<Longrightarrow> dirs_ok st'"
proof -
  have a: "dirs_ok (poll_events (arrived inp) st)" using assms(1) by (rule poll_events_dirs)
  have b: "\<And>c3 r3 s3. update_game env inp st = (c3, r3) \<Longrightarrow>
             list_all directions_in_domain c3 \<and> (r3 = Continue s3 \<longrightarrow> dirs_ok s3)"
    using a
    by (auto simp: update_game_def Let_def dirs_ok_def split: option.splits dest!: update_fps_fields)
  show "list_all directions_in_domain cs"
    using assms(2) b
    by (auto simp: frame_def draw_buffer_def render_views_def split: prod.splits if_splits)
  show "r = Continue st' \<Longrightarrow> dirs_ok st'"
    using assms(2) b
    by (auto simp: frame_def draw_buffer_def render_views_def split: prod.splits if_splits)
qed

lemma main_loop_list_all:
  assumes calls: "\<And>inp st cs r. I st \<Longrightarrow> frame cfg env inp st = (cs, r) \<Longrightarrow> list_all P cs"
    and inv: "\<And>inp st cs st'. I st \<Longrightarrow> frame cfg env inp st = (cs, Continue st') \<Longrightarrow> I st'"
    and init: "I st"
  shows "list_all P (fst (main_loop cfg env inps st))"
  using init
proof (induction inps arbitrary: st)
  case Nil
  then show ?case by simp
next
  case (Cons inp inps)
  obtain cs r where fr: "frame cfg env inp st = (cs, r)" by (cases "frame cfg env inp st")
  have p: "list_all P cs" using calls[OF Cons.prems fr] .
  show ?case
  proof (cases r)
    case (Continue st')
    have "I st'" using inv[OF Cons.prems] fr Continue by simp
    then have "list_all P (fst (main_loop cfg env inps st'))" by (rule Cons.IH)
    with p fr Continue show ?thesis by (auto split: prod.splits)
  next
    case (Abort out)
    with p fr show ?thesis by simp
  qed
qed

lemma main_list_all:
  assumes "list_all P (fst (main_loop cfg env inps (initial_shell env)))"
    and "list_all P (setup_calls cfg)" and "list_all P cleanup_calls"
    and "P SDL_Init" and "P Printf" and "P SDL_Quit" and "\<And>w h. P (SDL_CreateWindow w h)"
  shows "list_all P (fst (main cfg env inps))"
  using assms by (auto simp: main_def split: prod.splits step.splits)


lemma map_filter_app:
  "List.map_filter f (xs @ ys) = List.map_filter f xs @ List.map_filter f ys"
  by (simp add: List.map_filter_def)

lemma frame_calls_shape:
  "\<exists>rest. fst (frame cfg env inp st) = render_views st @ rest \<and>
     \<not> list_ex is_trace rest \<and>
     (\<forall>c \<in> set rest. \<not> presents c \<longrightarrow> \<not> is_move c \<longrightarrow> c \<in> {Fprintf, Exit 1, SDL_PollEvent, SDL_GetPerformanceCounter, SDL_GetPerformanceFrequency})"
  using update_game_calls[of env inp st]
  by (auto simp: frame_def draw_buffer_def split: prod.splits if_splits)

lemma frame_sample: "snd (frame cfg0 env0 in1 (initial_shell env0)) = Continue st1"
  by code_simp

subsection \<open>Order of the calls in an iteration\<close>

text \<open>
  C1. In every iteration of the main loop both \<open>RendererTraceFrame\<close> calls are made
  before the first call that brings a frame buffer to the display; no \<open>GameMove\<close>
  lies between the start of the first trace and the second trace; and the two traces
  are given different buffers.
\<close>

theorem traces_complete_before_presentation:
  "filter is_trace (fst (frame cfg env inp st)) =
     [RendererTraceFrame FloatCaster FloatBuffer, RendererTraceFrame FixedCaster FixedBuffer] \<and>
   filter is_trace (takeWhile (\<lambda>c. \<not> presents c) (fst (frame cfg env inp st))) =
     [RendererTraceFrame FloatCaster FloatBuffer, RendererTraceFrame FixedCaster FixedBuffer] \<and>
   \<not> list_ex is_move
       (takeWhile (\<lambda>c. c \<noteq> RendererTraceFrame FixedCaster FixedBuffer)
          (dropWhile (\<lambda>c. c \<noteq> RendererTraceFrame FloatCaster FloatBuffer)
             (fst (frame cfg env inp st)))) \<and>
   distinct (List.map_filter traced_buffer (fst (frame cfg env inp st)))"
proof -
  obtain rest where r: "fst (frame cfg env inp st) = render_views st @ rest"
    and nt: "\<not> list_ex is_trace rest"
    using frame_calls_shape by blast
  have f: "filter is_trace rest = []" using nt by (simp add: list_ex_iff filter_empty_conv)
  have m: "List.map_filter traced_buffer rest = []"
    using nt by (induction rest) (auto elim: is_trace.elims split: option.splits)
  have t: "filter is_trace (takeWhile (\<lambda>c. \<not> presents c) rest) = []"
    using nt by (auto simp: list_ex_iff filter_empty_conv dest: set_takeWhileD)
  show ?thesis
    unfolding r by (simp add: render_views_def f m t map_filter_app)
qed


theorem traces_complete_before_presentation_witness:
  "filter is_trace (fst (frame cfg0 env0 in1 (initial_shell env0))) =
     [RendererTraceFrame FloatCaster FloatBuffer, RendererTraceFrame FixedCaster FixedBuffer] \<and>
   list_ex presents (fst (frame cfg0 env0 in1 (initial_shell env0))) \<and>
   list_ex is_move (fst (frame cfg0 env0 in1 (initial_shell env0)))"
proof -
  have "list_ex presents (fst (frame cfg0 env0 in1 (initial_shell env0)))" by code_simp
  moreover have "list_ex is_move (fst (frame cfg0 env0 in1 (initial_shell env0)))" by code_simp
  ultimately show ?thesis
    using traces_complete_before_presentation[of cfg0 env0 in1 "initial_shell env0"] by simp
qed

lemma follows_cycle_append:
  "follows_cycle p (xs @ ys) = (follows_cycle p xs \<and> follows_cycle (last (p # xs)) ys)"
  by (induction xs arbitrary: p) auto

lemma phases_app: "phases (xs @ ys) = phases xs @ phases ys"
  by (simp add: phases_def map_filter_app)

lemma phases_draw_buffer:
  "phases (fst (draw_buffer cfg ok t b dx)) = (if ok then [Present, Present, Present, Present] else [Present])"
  by (simp add: draw_buffer_def phases_def)

lemma phases_render: "phases (render_views st) = [Render, Render, Render, Render]"
  by (simp add: render_views_def phases_def)

lemma phases_update_game:
  "phases (fst (update_game env inp st)) = [Poll] \<and> (\<forall>s. snd (update_game env inp st) \<noteq> Continue s) \<or>
   phases (fst (update_game env inp st)) = [Poll, Update]"
  using update_game_calls[of env inp st]
  by (auto simp: phases_def update_game_def Let_def split: option.splits)

lemma frame_cases:
  obtains
    (lock1) "frame cfg env inp st =
       (render_views st @ fst (draw_buffer cfg False FixedTexture FixedBuffer 0), Abort (Exited 1))"
  | (lock2) "frame cfg env inp st =
       (render_views st @ fst (draw_buffer cfg True FixedTexture FixedBuffer 0) @
        fst (draw_buffer cfg False FloatTexture FloatBuffer (SCREEN_WIDTH cfg + 1)), Abort (Exited 1))"
  | (drawn) "frame cfg env inp st =
       (render_views st @ fst (draw_buffer cfg True FixedTexture FixedBuffer 0) @
        fst (draw_buffer cfg True FloatTexture FloatBuffer (SCREEN_WIDTH cfg + 1)) @
        [SDL_RenderPresent] @ fst (update_game env inp st), snd (update_game env inp st))"
  by (cases "lockFixed inp"; cases "lockFloat inp")
     (auto simp: frame_def draw_buffer_def split: prod.splits)

lemma phases_present: "phases (SDL_RenderPresent # cs) = Present # phases cs"
  by (simp add: phases_def)

lemma phases_frame:
  "\<exists>rest. phases (fst (frame cfg env inp st)) = Render # rest \<and> follows_cycle Render rest \<and>
      sorted (map loop_rank (Render # rest)) \<and>
      ((\<exists>s. snd (frame cfg env inp st) = Continue s) \<longrightarrow>
         last (Render # rest) = Update \<and> set (Render # rest) = {Render, Present, Poll, Update})"
proof (cases rule: frame_cases[of cfg env inp st])
  case lock1
  then show ?thesis by (simp add: phases_app phases_render phases_draw_buffer)
next
  case lock2
  then show ?thesis by (simp add: phases_app phases_render phases_draw_buffer)
next
  case drawn
  from phases_update_game[of env inp st] show ?thesis
  proof
    assume "phases (fst (update_game env inp st)) = [Poll] \<and>
            (\<forall>s. snd (update_game env inp st) \<noteq> Continue s)"
    with drawn show ?thesis
      by (simp add: phases_app phases_render phases_draw_buffer phases_present)
  next
    assume "phases (fst (update_game env inp st)) = [Poll, Update]"
    with drawn show ?thesis
      by (auto simp add: phases_app phases_render phases_draw_buffer phases_present)
  qed
qed

lemma phases_main_loop:
  "p = Update \<or> p = Render \<Longrightarrow> follows_cycle p (phases (fst (main_loop cfg env inps st)))"
proof (induction inps arbitrary: st p)
  case Nil
  then show ?case by (simp add: phases_def)
next
  case (Cons inp inps)
  obtain rest where r: "phases (fst (frame cfg env inp st)) = Render # rest"
    and fc: "follows_cycle Render rest"
    and l: "(\<exists>s. snd (frame cfg env inp st) = Continue s) \<longrightarrow> last (Render # rest) = Update"
    using phases_frame[of cfg env inp st] by blast
  obtain cs r' where fr: "frame cfg env inp st = (cs, r')" by (cases "frame cfg env inp st")
  show ?case
  proof (cases "isExiting st")
    case True
    then show ?thesis by (simp add: phases_def)
  next
    case False
    show ?thesis
    proof (cases r')
      case (Abort out)
      with fr r fc False Cons.prems show ?thesis by auto
    next
      case (Continue st')
      have ih: "follows_cycle Update (phases (fst (main_loop cfg env inps st')))"
        by (rule Cons.IH) simp
      from l fr Continue have "last (Render # rest) = Update" by simp
      with ih fc have "follows_cycle Render (rest @ phases (fst (main_loop cfg env inps st')))"
        by (simp add: follows_cycle_append)
      with fr r False Continue Cons.prems show ?thesis
        by (auto simp: phases_app split: prod.splits)
    qed
  qed
qed

text \<open>
  C4, as the data flow states it: a run of the shell starts with polling and goes on
  through update, render and present. This fails on the sample run.
\<close>

theorem frame_order_counterexample:
  "\<not> follows_cycle Poll (phases (fst (main cfg0 env0 [in1, in2, in3])))"
  by code_simp


text \<open>
  C4, amended. A run goes through the same cycle but enters it at the render stage. An
  iteration of the loop runs render, present, poll, update in this order, and a complete
  one passes all four stages.
\<close>

theorem frame_order_render_first:
  "follows_cycle Render (phases (fst (main cfg env inps))) \<and>
   sorted (map loop_rank (phases (fst (frame cfg env inp st)))) \<and>
   (\<forall>st'. snd (frame cfg env inp st) = Continue st' \<longrightarrow>
      set (phases (fst (frame cfg env inp st))) = {Render, Present, Poll, Update})"
proof -
  have s: "phases (setup_calls cfg) = []" "phases cleanup_calls = []"
    by (simp_all add: setup_calls_def cleanup_calls_def phases_def)
  have "follows_cycle Render (phases (fst (main_loop cfg env inps (initial_shell env))))"
    by (rule phases_main_loop) simp
  then have a: "follows_cycle Render (phases (fst (main cfg env inps)))"
    by (auto simp: main_def phases_app s split: prod.splits step.splits)
       (simp_all add: phases_def)
  have b: "sorted (map loop_rank (phases (fst (frame cfg env inp st))))"
  proof -
    obtain rest where r: "phases (fst (frame cfg env inp st)) = Render # rest"
      and l: "sorted (map loop_rank (Render # rest))"
      using phases_frame[of cfg env inp st] by blast
    then show ?thesis by (simp only: r)
  qed
  have c: "set (phases (fst (frame cfg env inp st))) = {Render, Present, Poll, Update}"
    if "snd (frame cfg env inp st) = Continue st'" for st'
  proof -
    obtain rest where r: "phases (fst (frame cfg env inp st)) = Render # rest"
      and l: "(\<exists>s. snd (frame cfg env inp st) = Continue s) \<longrightarrow>
              last (Render # rest) = Update \<and> set (Render # rest) = {Render, Present, Poll, Update}"
      using phases_frame[of cfg env inp st] by blast
    from that l have "set (Render # rest) = {Render, Present, Poll, Update}" by blast
    then show ?thesis by (simp only: r)
  qed
  show ?thesis using a b c by blast
qed


theorem frame_order_render_first_witness:
  "follows_cycle Render (phases (fst (main cfg0 env0 [in1, in2, in3]))) \<and>
   snd (frame cfg0 env0 in1 (initial_shell env0)) = Continue st1 \<and>
   set (phases (fst (frame cfg0 env0 in1 (initial_shell env0)))) = {Render, Present, Poll, Update}"
  using frame_order_render_first[of cfg0 env0 "[in1, in2, in3]" in1 "initial_shell env0"]
    frame_sample
  by blast

subsection \<open>The directions handed to \<open>GameMove\<close>\<close>

text \<open>
  C7. Every \<open>GameMove\<close> call of a run has both directions in \<open>{-1, 0, 1}\<close>: the two
  variables start at 0 and \<open>process_event\<close> leaves each as it is or assigns -1, 0
  or 1; up and down set the move direction to 1 and -1 when pressed and to 0 when
  released, left and right set the rotation to -1 and 1 when pressed and to 0 when
  released.
\<close>

theorem move_directions_in_domain:
  "list_all directions_in_domain (fst (main cfg env inps)) \<and>
   moveDirection (initial_shell env) = 0 \<and> rotateDirection (initial_shell env) = 0 \<and>
   fst (snd (process_event e md rd)) \<in> {md, - 1, 0, 1} \<and>
   snd (snd (process_event e md rd)) \<in> {rd, - 1, 0, 1} \<and>
   process_event (SDL_KEYDOWN SDLK_UP 0) md rd = (False, 1, rd) \<and>
   process_event (SDL_KEYUP SDLK_UP 0) md rd = (False, 0, rd) \<and>
   process_event (SDL_KEYDOWN SDLK_DOWN 0) md rd = (False, - 1, rd) \<and>
   process_event (SDL_KEYUP SDLK_DOWN 0) md rd = (False, 0, rd) \<and>
   process_event (SDL_KEYDOWN SDLK_LEFT 0) md rd = (False, md, - 1) \<and>
   process_event (SDL_KEYUP SDLK_LEFT 0) md rd = (False, md, 0) \<and>
   process_event (SDL_KEYDOWN SDLK_RIGHT 0) md rd = (False, md, 1) \<and>
   process_event (SDL_KEYUP SDLK_RIGHT 0) md rd = (False, md, 0)"
proof -
  have i: "dirs_ok (initial_shell env)" by (simp add: dirs_ok_def initial_shell_def)
  have l: "list_all directions_in_domain (fst (main_loop cfg env inps (initial_shell env)))"
    by (rule main_loop_list_all[where I = dirs_ok]) (auto dest: frame_dirs simp: i)
  have m: "list_all directions_in_domain (fst (main cfg env inps))"
    by (rule main_list_all[OF l]) (simp_all add: setup_calls_def cleanup_calls_def)
  obtain q md' rd' where pe: "process_event e md rd = (q, md', rd')"
    by (cases "process_event e md rd")
  from process_event_domain[OF pe] pe
  have d: "fst (snd (process_event e md rd)) \<in> {md, - 1, 0, 1}"
          "snd (snd (process_event e md rd)) \<in> {rd, - 1, 0, 1}" by auto
  show ?thesis using m d by (simp add: initial_shell_def)
qed

theorem move_directions_in_domain_witness:
  "list_all directions_in_domain (fst (main cfg0 env0 [in1, in2, in3])) \<and>
   list_ex is_move (fst (main cfg0 env0 [in1, in2, in3])) \<and>
   fst (snd (process_event (SDL_KEYDOWN SDLK_DOWN 0) 1 0)) \<in> {1, - 1, 0, 1}"
proof -
  have "list_ex is_move (fst (main cfg0 env0 [in1, in2, in3]))" by code_simp
  then show ?thesis
    using move_directions_in_domain[of cfg0 env0 "[in1, in2, in3]" "SDL_KEYDOWN SDLK_DOWN 0" 1 0]
    by blast
qed

subsection \<open>One event per iteration\<close>

text \<open>
  C10. An iteration of the main loop polls at most once. When it completes, the queue
  of pending events has lost its first event and kept all others, and the two
  directions and the quit flag are what \<open>process_event\<close> makes of that first event
  alone (or unchanged, with no event pending).
\<close>

theorem one_event_per_iteration:
  assumes "frame cfg env inp st = (cs, r)"
  shows "length (filter is_poll cs) \<le> 1 \<and>
         (\<forall>st'. r = Continue st' \<longrightarrow>
            eventQueue st' = tl (eventQueue st @ arrived inp) \<and>
            (isExiting st', moveDirection st', rotateDirection st') =
              (case eventQueue st @ arrived inp of
                 [] \<Rightarrow> (isExiting st, moveDirection st, rotateDirection st)
               | e # q \<Rightarrow> process_event e (moveDirection st) (rotateDirection st)))"
proof -
  have a: "length (filter is_poll cs) \<le> 1"
    using assms update_game_calls[of env inp st]
    by (auto simp: frame_def draw_buffer_def render_views_def split: prod.splits if_splits)
  have b: "eventQueue st' = tl (eventQueue st @ arrived inp) \<and>
            (isExiting st', moveDirection st', rotateDirection st') =
              (case eventQueue st @ arrived inp of
                 [] \<Rightarrow> (isExiting st, moveDirection st, rotateDirection st)
               | e # q \<Rightarrow> process_event e (moveDirection st) (rotateDirection st))"
    if "r = Continue st'" for st'
  proof -
    from assms that obtain c3 where "update_game env inp st = (c3, Continue st')"
      using frame_Continue by blast
    from update_fps_fields[OF update_game_Continue(2)[OF this]]
    show ?thesis
      by (cases "eventQueue st @ arrived inp") (auto simp: poll_events_def split: prod.splits)
  qed
  show ?thesis using a b by blast
qed

theorem one_event_per_iteration_witness:
  "frame cfg0 env0 in1 (initial_shell env0) =
     (fst (frame cfg0 env0 in1 (initial_shell env0)), Continue st1) \<and>
   length (filter is_poll (fst (frame cfg0 env0 in1 (initial_shell env0)))) \<le> 1 \<and>
   eventQueue st1 = tl (eventQueue (initial_shell env0) @ arrived in1) \<and>
   eventQueue st1 = [SDL_KEYDOWN SDLK_LEFT 0] \<and>
   (isExiting st1, moveDirection st1, rotateDirection st1) = (False, 1, 0)"
proof -
  have h: "frame cfg0 env0 in1 (initial_shell env0) =
             (fst (frame cfg0 env0 in1 (initial_shell env0)), Continue st1)"
    using frame_sample by (simp add: prod_eq_iff)
  have e: "eventQueue st1 = [SDL_KEYDOWN SDLK_LEFT 0]"
    "(isExiting st1, moveDirection st1, rotateDirection st1) = (False, 1, 0)"
    by (simp_all add: st1_def)
  show ?thesis using one_event_per_iteration[OF h] h e by blast
qed

subsection \<open>The time handed to \<open>GameMove\<close>\<close>

lemma elapsed_Some:
  assumes "elapsedTimeUnits freq ticks = Some t"
  shows "unat t = unat ticks div (unat freq div 256)" and "0 < unat freq div 256"
proof -
  have d: "unat (drop_bit 8 freq) = unat freq div 256"
    by (simp add: drop_bit_eq_div unat_div)
  from assms have nz: "drop_bit 8 freq \<noteq> 0" and t: "t = ticks div drop_bit 8 freq"
    by (auto simp: elapsedTimeUnits_def split: if_splits)
  from nz have "unat (drop_bit 8 freq) \<noteq> 0" by (simp add: unat_eq_0)
  with d show "0 < unat freq div 256" by simp
  show "unat t = unat ticks div (unat freq div 256)"
    unfolding t by (simp add: unat_div d)
qed

lemma scaled_ge:
  fixes a f :: nat
  assumes "0 < f div 256"
  shows "(a * 256) div f \<le> a div (f div 256)"
proof -
  have "256 * (f div 256) \<le> f" by simp
  then have "(a * 256) div f \<le> (a * 256) div (256 * (f div 256))"
    using assms by (intro div_le_mono2) simp_all
  also have "\<dots> = a div (f div 256)"
    by (simp add: mult.commute)
  finally show ?thesis .
qed

lemma scaled_eq:
  fixes a f :: nat
  assumes "256 dvd f"
  shows "a div (f div 256) = (a * 256) div f"
proof -
  from assms obtain k where k: "f = 256 * k" by (auto elim: dvdE)
  show ?thesis by (simp add: k mult.commute)
qed

lemma update_game_moves:
  assumes "c \<in> set (fst (update_game env inp st))" and "is_move c"
  shows "\<exists>m r t. c = GameMove m r t \<and>
           elapsedTimeUnits (tickFrequency env) (nextCounter inp - tickCounter st) = Some t"
proof -
  have tc: "tickCounter (poll_events (arrived inp) st) = tickCounter st"
    by (simp add: poll_events_def split: prod.splits option.splits)
  show ?thesis
    using assms by (auto simp: update_game_def Let_def tc split: option.splits)
qed

lemma frame_moves:
  assumes "c \<in> set (fst (frame cfg env inp st))" and "is_move c"
  shows "\<exists>m r t. c = GameMove m r t \<and>
           elapsedTimeUnits (tickFrequency env) (nextCounter inp - tickCounter st) = Some t"
proof (cases rule: frame_cases[of cfg env inp st])
  case lock1
  with assms show ?thesis by (auto simp: render_views_def draw_buffer_def)
next
  case lock2
  with assms show ?thesis by (auto simp: render_views_def draw_buffer_def)
next
  case drawn
  with assms have "c \<in> set (fst (update_game env inp st))"
    by (auto simp: render_views_def draw_buffer_def)
  then show ?thesis using assms(2) by (rule update_game_moves)
qed

text \<open>
  C5, as stated: the time argument of every \<open>GameMove\<close> call of an iteration equals
  \<open>(ticks * 256) / frequency\<close>. With ten million ticks per second and 39062 ticks
  elapsed the shell passes 1, while \<open>39062 * 256 / 10000000\<close> is 0.
\<close>

theorem time_argument_counterexample:
  "\<not> list_all (time_normalized (tickFrequency env7) (nextCounter in7 - tickCounter (initial_shell env7)))
       (fst (frame cfg0 env7 in7 (initial_shell env7)))"
proof -
  have m: "GameMove 0 0 1 \<in> set (fst (frame cfg0 env7 in7 (initial_shell env7)))"
    by code_simp
  have t: "tickFrequency env7 = 10000000"
    "nextCounter in7 - tickCounter (initial_shell env7) = 39062"
    by (simp_all add: env7_def in7_def initial_shell_def)
  have "\<not> time_normalized 10000000 39062 (GameMove 0 0 1)" by simp
  with m show ?thesis unfolding t list_all_iff by blast
qed


text \<open>
  C5, amended. The time argument is \<open>ticks\<close> divided by the 256th part of the
  frequency, rounded down at both divisions; that is never less than
  \<open>(ticks * 256) / frequency\<close> and equal to it when 256 divides the frequency. With
  a frequency below 256 no \<open>GameMove\<close> call is made, the divisor being zero.
\<close>

theorem time_argument_scaled:
  "list_all (time_scaled (tickFrequency env) (nextCounter inp - tickCounter st))
     (fst (frame cfg env inp st)) \<and>
   (256 dvd unat (tickFrequency env) \<longrightarrow>
      list_all (time_normalized (tickFrequency env) (nextCounter inp - tickCounter st))
        (fst (frame cfg env inp st))) \<and>
   (tickFrequency env < 256 \<longrightarrow> \<not> list_ex is_move (fst (frame cfg env inp st)))"
proof -
  let ?f = "tickFrequency env" and ?k = "nextCounter inp - tickCounter st"
  have a: "time_scaled ?f ?k c" if "c \<in> set (fst (frame cfg env inp st))" for c
  proof (cases "is_move c")
    case True
    from frame_moves[OF that True] obtain m r t where c: "c = GameMove m r t"
      and e: "elapsedTimeUnits ?f ?k = Some t" by blast
    from elapsed_Some[OF e] scaled_ge[of "unat ?f" "unat ?k"] show ?thesis
      by (simp add: c)
  next
    case False
    then show ?thesis by (cases c) simp_all
  qed
  have b: "time_normalized ?f ?k c"
    if "c \<in> set (fst (frame cfg env inp st))" and d: "256 dvd unat ?f" for c
  proof (cases "is_move c")
    case True
    from frame_moves[OF that(1) True] obtain m r t where c: "c = GameMove m r t"
      and e: "elapsedTimeUnits ?f ?k = Some t" by blast
    from elapsed_Some(1)[OF e] scaled_eq[OF d, of "unat ?k"] show ?thesis
      by (simp add: c)
  next
    case False
    then show ?thesis by (cases c) simp_all
  qed
  have c: "\<not> is_move c" if "c \<in> set (fst (frame cfg env inp st))" and l: "?f < 256" for c
  proof
    assume "is_move c"
    from frame_moves[OF that(1) this] obtain t where "elapsedTimeUnits ?f ?k = Some t" by blast
    from elapsed_Some(2)[OF this] have "256 \<le> unat ?f" by simp
    moreover from l have "unat ?f < 256" by (simp add: word_less_nat_alt)
    ultimately show False by simp
  qed
  show ?thesis using a b c unfolding list_all_iff list_ex_iff by blast
qed

theorem time_argument_scaled_witness:
  "list_all (time_normalized (tickFrequency env0) (nextCounter in1 - tickCounter (initial_shell env0)))
     (fst (frame cfg0 env0 in1 (initial_shell env0))) \<and>
   list_ex is_move (fst (frame cfg0 env0 in1 (initial_shell env0))) \<and>
   \<not> list_ex is_move (fst (frame cfg0 (env0\<lparr>tickFrequency := 255\<rparr>) in1 (initial_shell env0)))"
proof -
  have d: "256 dvd unat (tickFrequency env0)" by (simp add: env0_def)
  have l: "tickFrequency (env0\<lparr>tickFrequency := 255\<rparr>) < 256" by simp
  have m: "list_ex is_move (fst (frame cfg0 env0 in1 (initial_shell env0)))" by code_simp
  show ?thesis
    using time_argument_scaled[of env0 in1 "initial_shell env0" cfg0] d m
      time_argument_scaled[of "env0\<lparr>tickFrequency := 255\<rparr>" in1 "initial_shell env0" cfg0] l
    by blast
qed


subsection \<open>What is uploaded to the textures\<close>

lemma frame_list_all:
  assumes "list_all P (render_views st)"
    and "\<And>ok t b dx. list_all P (fst (draw_buffer cfg ok t b dx))"
    and "P SDL_RenderPresent" and "list_all P (fst (update_game env inp st))"
  shows "list_all P (fst (frame cfg env inp st))"
  using assms by (cases rule: frame_cases[of cfg env inp st]) simp_all

lemma main_loop_list_all':
  assumes "\<And>inp st. list_all P (fst (frame cfg env inp st))"
  shows "list_all P (fst (main_loop cfg env inps st))"
proof (rule main_loop_list_all[where I = "\<lambda>_. True"])
  fix inp st cs r
  assume "frame cfg env inp st = (cs, r)"
  with assms[of inp st] show "list_all P cs" by simp
qed simp_all

lemma frame_upload: "list_all (upload_matches cfg) (fst (frame cfg env inp st))"
proof (cases rule: frame_cases[of cfg env inp st])
  case lock1
  then show ?thesis
    by (simp add: render_views_def draw_buffer_def)
next
  case lock2
  then show ?thesis
    by (simp add: render_views_def draw_buffer_def buffer_bytes_def buffer_elements_def sizeof_uint32_t_def)
next
  case drawn
  have "list_all (upload_matches cfg) (fst (update_game env inp st))"
    using update_game_calls[of env inp st] by auto
  with drawn show ?thesis
    by (simp add: render_views_def draw_buffer_def buffer_bytes_def buffer_elements_def sizeof_uint32_t_def)
qed

lemma frame_loop_call: "list_all loop_call (fst (frame cfg env inp st))"
proof (rule frame_list_all)
  show "list_all loop_call (fst (update_game env inp st))"
    using update_game_calls[of env inp st] by auto
qed (simp_all add: render_views_def draw_buffer_def)

lemma main_loop_loop_call: "list_all loop_call (fst (main_loop cfg env inps st))"
  by (rule main_loop_list_all') (rule frame_loop_call)

lemma read_pack:
  "read_texel SDL_PIXELFORMAT_ABGR8888 (pack_abgr a b g r) = (r, g, b, a)"
  apply (simp add: pack_abgr_def)
  apply (intro conjI; rule bit_word_eqI; auto simp: bit_simps dest: bit_imp_le_length)
  done

lemma bytes_pack: "bytes_of_uint32 (pack_abgr a b g r) = [r, g, b, a]"
  apply (simp add: pack_abgr_def bytes_of_uint32_def)
  apply (intro conjI; rule bit_word_eqI; auto simp: bit_simps dest: bit_imp_le_length)
  done

lemma length_bytes_of_uint32 [simp]: "length (bytes_of_uint32 w) = 4"
  by (simp add: bytes_of_uint32_def)

lemma length_buffer_image: "length (buffer_image fb) = length fb * 4"
  by (induction fb) (simp_all add: buffer_image_def)

lemma image_nth:
  "i < length fb \<Longrightarrow> take 4 (drop (i * 4) (buffer_image fb @ rest)) = bytes_of_uint32 (fb ! i)"
proof (induction fb arbitrary: i)
  case Nil
  then show ?case by simp
next
  case (Cons w ws)
  show ?case
  proof (cases i)
    case 0
    then show ?thesis by (simp add: buffer_image_def)
  next
    case (Suc j)
    with Cons.prems have j: "j < length ws" by simp
    have "drop (Suc j * 4) (buffer_image (w # ws) @ rest) = drop (j * 4) (buffer_image ws @ rest)"
      by (simp add: buffer_image_def)
    with Cons.IH[OF j] Suc show ?thesis by simp
  qed
qed

lemma pixel_index_bound:
  fixes W H :: nat
  assumes "x < W" and "y < H"
  shows "y * W + x < W * H"
proof -
  have "y * W + x < y * W + W" using assms(1) by simp
  also have "\<dots> = Suc y * W" by simp
  also have "\<dots> \<le> H * W" using assms(2) by (intro mult_le_mono1) simp
  finally show ?thesis by (simp add: mult.commute)
qed

lemma uploaded_texel:
  assumes "length fb = SCREEN_WIDTH cfg * SCREEN_HEIGHT cfg"
    and "n = SCREEN_WIDTH cfg * SCREEN_HEIGHT cfg * 4"
    and "x < SCREEN_WIDTH cfg" and "y < SCREEN_HEIGHT cfg"
  shows "texel_bytes SDL_PIXELFORMAT_ABGR8888 (SCREEN_WIDTH cfg * 4)
           (memcpy mem (buffer_image fb) n) x y =
         bytes_of_uint32 (fb ! (y * SCREEN_WIDTH cfg + x))"
proof -
  have i: "y * SCREEN_WIDTH cfg + x < length fb"
    using pixel_index_bound[OF assms(3,4)] assms(1) by simp
  have t: "take n (buffer_image fb) = buffer_image fb"
    by (simp add: length_buffer_image assms(1,2))
  have o: "y * (SCREEN_WIDTH cfg * 4) + x * 4 = (y * SCREEN_WIDTH cfg + x) * 4"
    by (simp add: algebra_simps)
  show ?thesis
    unfolding texel_bytes_def memcpy_def t o bytes_per_pixel.simps
    by (rule image_nth[OF i])
qed


lemma loop_call_not_create: "loop_call c \<Longrightarrow> \<not> is_create c"
  by (cases c) simp_all

lemma filter_create_loop:
  "filter is_create (fst (main_loop cfg env inps st)) = []"
  using main_loop_loop_call[of cfg env inps st]
  by (auto simp: filter_empty_conv list_all_iff dest: loop_call_not_create)

lemma filter_create_main:
  assumes "initOk env" and "windowOk env"
  shows "filter is_create (fst (main cfg env inps)) =
    [SDL_CreateTexture FixedTexture SDL_PIXELFORMAT_ABGR8888 (SCREEN_WIDTH cfg) (SCREEN_HEIGHT cfg),
     SDL_CreateTexture FloatTexture SDL_PIXELFORMAT_ABGR8888 (SCREEN_WIDTH cfg) (SCREEN_HEIGHT cfg)]"
proof -
  obtain cs r where ml: "main_loop cfg env inps (initial_shell env) = (cs, r)"
    by (cases "main_loop cfg env inps (initial_shell env)")
  from filter_create_loop[of cfg env inps "initial_shell env"] ml
  have f: "filter is_create cs = []" by simp
  show ?thesis
    using assms ml f
    by (cases r) (simp_all add: main_def setup_calls_def cleanup_calls_def)
qed

lemma copies_fit_loop:
  assumes "list_all loop_call cs" and "list_all (upload_matches cfg) cs"
    and "sz FixedTexture = Some (SCREEN_WIDTH cfg * SCREEN_HEIGHT cfg * 4)"
    and "sz FloatTexture = Some (SCREEN_WIDTH cfg * SCREEN_HEIGHT cfg * 4)"
  shows "copies_fit sz (cs @ rest) = copies_fit sz rest"
  using assms(1,2)
proof (induction cs)
  case Nil
  show ?case by simp
next
  case (Cons c cs)
  then have ih: "copies_fit sz (cs @ rest) = copies_fit sz rest" by simp
  have t: "sz (texture_of b) = Some (SCREEN_WIDTH cfg * SCREEN_HEIGHT cfg * 4)" for b
    using assms(3,4) by (cases b) simp_all
  from Cons.prems have "loop_call c" "upload_matches cfg c" by simp_all
  then show ?case
    using ih t
    by (cases c) (auto simp: buffer_bytes_def buffer_elements_def sizeof_uint32_t_def)
qed

lemma copies_fit_setup:
  "copies_fit Map.empty (setup_calls cfg @ rest) =
   copies_fit [FixedTexture \<mapsto> SCREEN_WIDTH cfg * SCREEN_HEIGHT cfg * 4,
               FloatTexture \<mapsto> SCREEN_WIDTH cfg * SCREEN_HEIGHT cfg * 4] rest"
  by (simp add: setup_calls_def)

lemma copies_fit_main: "copies_fit Map.empty (fst (main cfg env inps))"
proof -
  obtain cs r where ml: "main_loop cfg env inps (initial_shell env) = (cs, r)"
    by (cases "main_loop cfg env inps (initial_shell env)")
  have l: "list_all loop_call cs"
    using main_loop_loop_call[of cfg env inps "initial_shell env"] ml by simp
  have u: "list_all (upload_matches cfg) cs"
    using main_loop_list_all'[of "upload_matches cfg" cfg env inps "initial_shell env"]
      frame_upload ml by simp
  have c: "copies_fit [FixedTexture \<mapsto> SCREEN_WIDTH cfg * SCREEN_HEIGHT cfg * 4,
               FloatTexture \<mapsto> SCREEN_WIDTH cfg * SCREEN_HEIGHT cfg * 4] (cs @ rest) =
           copies_fit [FixedTexture \<mapsto> SCREEN_WIDTH cfg * SCREEN_HEIGHT cfg * 4,
               FloatTexture \<mapsto> SCREEN_WIDTH cfg * SCREEN_HEIGHT cfg * 4] rest" for rest
    by (rule copies_fit_loop[OF l u]) simp_all
  show ?thesis
  proof (cases "initOk env \<and> windowOk env")
    case False
    then show ?thesis by (auto simp: main_def)
  next
    case True
    show ?thesis
    proof (cases r)
      case (Continue st)
      with True ml have "fst (main cfg env inps) = setup_calls cfg @ cs @ cleanup_calls @ [SDL_Quit]"
        by (simp add: main_def)
      then show ?thesis
        by (simp only: copies_fit_setup c) (simp add: cleanup_calls_def)
    next
      case (Abort out)
      with True ml have "fst (main cfg env inps) = setup_calls cfg @ cs @ []"
        by (simp add: main_def)
      then show ?thesis
        by (simp only: copies_fit_setup c) simp
    qed
  qed
qed

lemma frame_copies:
  assumes "lockFixed inp" and "lockFloat inp"
  shows "Memcpy FixedTexture FixedBuffer (SCREEN_WIDTH cfg * SCREEN_HEIGHT cfg * 4)
           \<in> set (fst (frame cfg env inp st))"
    and "Memcpy FloatTexture FloatBuffer (SCREEN_WIDTH cfg * SCREEN_HEIGHT cfg * 4)
           \<in> set (fst (frame cfg env inp st))"
  using assms
  by (simp_all add: frame_def draw_buffer_def sizeof_uint32_t_def split: prod.splits)

lemma main_first_frame:
  assumes "initOk env" and "windowOk env"
  shows "set (fst (frame cfg env inp (initial_shell env))) \<subseteq> set (fst (main cfg env (inp # rest)))"
proof -
  have n: "\<not> isExiting (initial_shell env)" by (simp add: initial_shell_def)
  obtain c1 r1 where fr: "frame cfg env inp (initial_shell env) = (c1, r1)"
    by (cases "frame cfg env inp (initial_shell env)")
  obtain cs r where ml: "main_loop cfg env (inp # rest) (initial_shell env) = (cs, r)"
    by (cases "main_loop cfg env (inp # rest) (initial_shell env)")
  have "set c1 \<subseteq> set cs"
    using ml fr n by (cases r1) (auto split: prod.splits)
  moreover have "set cs \<subseteq> set (fst (main cfg env (inp # rest)))"
    using assms ml by (cases r) (auto simp: main_def)
  ultimately show ?thesis using fr by simp
qed


text \<open>
  C6. On every path that reaches the loop, the shell creates each of the two textures
  exactly once, in ABGR8888 with the screen's width and height. Every copy of a run
  goes into a texture created before it and moves exactly the bytes of that texture's
  pixels, which is \<open>SCREEN_WIDTH * SCREEN_HEIGHT * 4\<close>, the whole of the buffer that
  belongs to the texture; an iteration whose locks succeed makes both copies. For a
  buffer of the declared size, the copy puts the four bytes of element
  \<open>y * SCREEN_WIDTH + x\<close> where the texture, its rows packed, has the pixel in
  column \<open>x\<close> of row \<open>y\<close>; and a value packed as alpha, blue, green, red is read
  in the texture's format with the same four channels.
\<close>

theorem upload_matches_buffer:
  assumes "initOk env" and "windowOk env"
  shows
  "filter is_create (fst (main cfg env inps)) =
     [SDL_CreateTexture FixedTexture SDL_PIXELFORMAT_ABGR8888 (SCREEN_WIDTH cfg) (SCREEN_HEIGHT cfg),
      SDL_CreateTexture FloatTexture SDL_PIXELFORMAT_ABGR8888 (SCREEN_WIDTH cfg) (SCREEN_HEIGHT cfg)] \<and>
   copies_fit Map.empty (fst (main cfg env inps)) \<and>
   list_all (upload_matches cfg) (fst (main cfg env inps)) \<and>
   (inps = inp # rest \<and> lockFixed inp \<and> lockFloat inp \<longrightarrow>
      Memcpy FixedTexture FixedBuffer (SCREEN_WIDTH cfg * SCREEN_HEIGHT cfg * 4)
        \<in> set (fst (main cfg env inps)) \<and>
      Memcpy FloatTexture FloatBuffer (SCREEN_WIDTH cfg * SCREEN_HEIGHT cfg * 4)
        \<in> set (fst (main cfg env inps))) \<and>
   (SDL_CreateTexture t f w h \<in> set (fst (main cfg env inps)) \<and>
    Memcpy t b n \<in> set (fst (main cfg env inps)) \<and>
    length fb = buffer_elements cfg b \<and> x < w \<and> y < h \<longrightarrow>
      n = length (buffer_image fb) \<and> n = w * h * bytes_per_pixel f \<and>
      texel_bytes f (w * bytes_per_pixel f) (memcpy mem (buffer_image fb) n) x y =
        bytes_of_uint32 (fb ! (y * w + x)) \<and>
      read_texel f (pack_abgr ca cb cg cr) = (cr, cg, cb, ca))"
proof -
  let ?tr = "fst (main cfg env inps)"
  have l: "list_all (upload_matches cfg) (fst (main_loop cfg env inps (initial_shell env)))"
    by (rule main_loop_list_all') (rule frame_upload)
  have u: "list_all (upload_matches cfg) ?tr"
    by (rule main_list_all[OF l]) (simp_all add: setup_calls_def cleanup_calls_def)
  have c: "Memcpy FixedTexture FixedBuffer (SCREEN_WIDTH cfg * SCREEN_HEIGHT cfg * 4) \<in> set ?tr \<and>
      Memcpy FloatTexture FloatBuffer (SCREEN_WIDTH cfg * SCREEN_HEIGHT cfg * 4) \<in> set ?tr"
    if "inps = inp # rest \<and> lockFixed inp \<and> lockFloat inp"
    using that main_first_frame[OF assms, of cfg inp rest]
      frame_copies[of inp cfg env "initial_shell env"] by blast
  have d: "n = length (buffer_image fb) \<and> n = w * h * bytes_per_pixel f \<and>
      texel_bytes f (w * bytes_per_pixel f) (memcpy mem (buffer_image fb) n) x y =
        bytes_of_uint32 (fb ! (y * w + x)) \<and>
      read_texel f (pack_abgr ca cb cg cr) = (cr, cg, cb, ca)"
    if p: "SDL_CreateTexture t f w h \<in> set ?tr \<and> Memcpy t b n \<in> set ?tr \<and>
        length fb = buffer_elements cfg b \<and> x < w \<and> y < h"
  proof -
    from p u have "upload_matches cfg (SDL_CreateTexture t f w h)" "upload_matches cfg (Memcpy t b n)"
      by (auto simp: list_all_iff)
    then have f: "f = SDL_PIXELFORMAT_ABGR8888" and w: "w = SCREEN_WIDTH cfg"
      and h: "h = SCREEN_HEIGHT cfg" and n: "n = SCREEN_WIDTH cfg * SCREEN_HEIGHT cfg * 4"
      by (simp_all add: buffer_bytes_def buffer_elements_def sizeof_uint32_t_def)
    from p have len: "length fb = SCREEN_WIDTH cfg * SCREEN_HEIGHT cfg"
      by (simp add: buffer_elements_def)
    from p w h have xy: "x < SCREEN_WIDTH cfg" "y < SCREEN_HEIGHT cfg" by simp_all
    have 1: "n = length (buffer_image fb)" by (simp add: n len length_buffer_image)
    have 2: "n = w * h * bytes_per_pixel f" by (simp add: n w h f)
    have 3: "texel_bytes f (w * bytes_per_pixel f) (memcpy mem (buffer_image fb) n) x y =
        bytes_of_uint32 (fb ! (y * w + x))"
      using uploaded_texel[OF len n xy, of mem] by (simp add: f w)
    have 4: "read_texel f (pack_abgr ca cb cg cr) = (cr, cg, cb, ca)"
      unfolding f by (rule read_pack)
    show ?thesis using 1 2 3 4 by blast
  qed
  show ?thesis
    using filter_create_main[OF assms, of cfg inps] copies_fit_main[of cfg env inps] u c d
    by blast
qed

theorem upload_matches_buffer_witness:
  "initOk env0 \<and> windowOk env0 \<and> lockFixed in1 \<and> lockFloat in1 \<and>
   filter is_create (fst (main cfg0 env0 [in1, in2, in3])) =
     [SDL_CreateTexture FixedTexture SDL_PIXELFORMAT_ABGR8888 (SCREEN_WIDTH cfg0) (SCREEN_HEIGHT cfg0),
      SDL_CreateTexture FloatTexture SDL_PIXELFORMAT_ABGR8888 (SCREEN_WIDTH cfg0) (SCREEN_HEIGHT cfg0)] \<and>
   SDL_CreateTexture FixedTexture SDL_PIXELFORMAT_ABGR8888 2 2 \<in> set (fst (main cfg0 env0 [in1, in2, in3])) \<and>
   Memcpy FixedTexture FixedBuffer 16 \<in> set (fst (main cfg0 env0 [in1, in2, in3])) \<and>
   length [1, 1, 2, 3 :: 32 word] = buffer_elements cfg0 FixedBuffer \<and>
   texel_bytes SDL_PIXELFORMAT_ABGR8888 (2 * bytes_per_pixel SDL_PIXELFORMAT_ABGR8888)
     (memcpy (replicate 16 0) (buffer_image [1, 1, 2, 3]) 16) 1 1 =
     bytes_of_uint32 ([1, 1, 2, 3] ! (1 * 2 + 1)) \<and>
   texel_bytes SDL_PIXELFORMAT_ABGR8888 8
     (memcpy (replicate 16 0) (buffer_image [1, 1, 2, 3]) 16) 1 1 = [3, 0, 0, 0] \<and>
   read_texel SDL_PIXELFORMAT_ABGR8888 (pack_abgr 255 1 2 3) = (3, 2, 1, 255)"
proof -
  have e: "initOk env0" "windowOk env0" by (simp_all add: env0_def)
  have k: "lockFixed in1" "lockFloat in1" by (simp_all add: in1_def)
  have m1: "SDL_CreateTexture FixedTexture SDL_PIXELFORMAT_ABGR8888 2 2
              \<in> set (fst (main cfg0 env0 [in1, in2, in3]))" by code_simp
  have m2: "Memcpy FixedTexture FixedBuffer 16 \<in> set (fst (main cfg0 env0 [in1, in2, in3]))"
    by code_simp
  have h: "length [1, 1, 2, 3 :: 32 word] = buffer_elements cfg0 FixedBuffer"
    by (simp add: buffer_elements_def cfg0_def)
  have v: "texel_bytes SDL_PIXELFORMAT_ABGR8888 8
     (memcpy (replicate 16 0) (buffer_image [1, 1, 2, 3]) 16) 1 1 = [3, 0, 0, 0]"
    by code_simp
  have x: "(1::nat) < 2" by simp
  from upload_matches_buffer[OF e, where cfg = cfg0 and inps = "[in1, in2, in3]"
      and inp = in1 and rest = "[in2, in3]" and t = FixedTexture
      and f = SDL_PIXELFORMAT_ABGR8888 and w = 2 and h = 2 and b = FixedBuffer and n = 16
      and fb = "[1, 1, 2, 3]" and x = 1 and y = 1 and mem = "replicate 16 0"
      and ca = 255 and cb = 1 and cg = 2 and cr = 3] m1 m2 h x
  have "filter is_create (fst (main cfg0 env0 [in1, in2, in3])) =
     [SDL_CreateTexture FixedTexture SDL_PIXELFORMAT_ABGR8888 (SCREEN_WIDTH cfg0) (SCREEN_HEIGHT cfg0),
      SDL_CreateTexture FloatTexture SDL_PIXELFORMAT_ABGR8888 (SCREEN_WIDTH cfg0) (SCREEN_HEIGHT cfg0)]"
    and "texel_bytes SDL_PIXELFORMAT_ABGR8888 (2 * bytes_per_pixel SDL_PIXELFORMAT_ABGR8888)
     (memcpy (replicate 16 0) (buffer_image [1, 1, 2, 3]) 16) 1 1 =
     bytes_of_uint32 ([1, 1, 2, 3] ! (1 * 2 + 1))"
    and "read_texel SDL_PIXELFORMAT_ABGR8888 (pack_abgr 255 1 2 3) = (3, 2, 1, 255)"
    by blast+
  with e k m1 m2 h v show ?thesis by blast
qed


subsection \<open>Construction and teardown of the ray casters\<close>

lemma loop_not_lifecycle:
  assumes "x \<in> set (fst (main_loop cfg env inps st))"
  shows "x \<noteq> constructor_of c" and "x \<noteq> Destruct c"
proof -
  from assms main_loop_loop_call[of cfg env inps st] have l: "loop_call x"
    by (simp add: list_all_iff)
  show "x \<noteq> constructor_of c" using l by (cases c) auto
  show "x \<noteq> Destruct c" using l by auto
qed

lemma setup_lifecycle:
  "count_list (setup_calls cfg) (constructor_of c) = 1"
  "count_list (setup_calls cfg) (Destruct c) = 0"
  "constructor_of c \<in> set (setup_calls cfg)"
  "\<not> list_ex in_loop (takeWhile (\<lambda>x. x \<noteq> constructor_of c) (setup_calls cfg))"
  "\<And>x. x \<in> set (setup_calls cfg) \<Longrightarrow> x \<noteq> Destruct c"
  by (cases c; auto simp: setup_calls_def)+

lemma cleanup_lifecycle:
  "count_list (cleanup_calls @ [SDL_Quit]) (constructor_of c) = 0"
  "count_list (cleanup_calls @ [SDL_Quit]) (Destruct c) = 1"
  "\<not> list_ex in_loop (dropWhile (\<lambda>x. x \<noteq> Destruct c) (cleanup_calls @ [SDL_Quit]))"
  by (cases c; simp add: cleanup_calls_def)+

lemma lifecycle_aborted:
  assumes "\<And>x. x \<in> set cs \<Longrightarrow> x \<noteq> constructor_of c \<and> x \<noteq> Destruct c"
  shows "lifecycle_started (setup_calls cfg @ cs) c \<and> count_list (setup_calls cfg @ cs) (Destruct c) = 0"
proof -
  have 1: "count_list cs (constructor_of c) = 0" "count_list cs (Destruct c) = 0"
    using assms by (auto simp: count_list_0_iff)
  have 2: "dropWhile (\<lambda>x. x \<noteq> Destruct c) (setup_calls cfg @ cs) = []"
    using assms setup_lifecycle(5)[where cfg=cfg and c=c] by (auto simp: dropWhile_eq_Nil_conv)
  have 3: "takeWhile (\<lambda>x. x \<noteq> constructor_of c) (setup_calls cfg @ cs) =
           takeWhile (\<lambda>x. x \<noteq> constructor_of c) (setup_calls cfg)"
    by (rule takeWhile_append1[OF setup_lifecycle(3)]) simp
  show ?thesis
    unfolding lifecycle_started_def 2 3
    using 1 setup_lifecycle(1,2,4)[where cfg=cfg and c=c] by simp
qed

lemma lifecycle_returned:
  assumes "\<And>x. x \<in> set cs \<Longrightarrow> x \<noteq> constructor_of c \<and> x \<noteq> Destruct c"
  shows "lifecycle (setup_calls cfg @ cs @ cleanup_calls @ [SDL_Quit]) c"
proof -
  have 1: "count_list cs (constructor_of c) = 0" "count_list cs (Destruct c) = 0"
    using assms by (auto simp: count_list_0_iff)
  have "dropWhile (\<lambda>x. x \<noteq> Destruct c) (setup_calls cfg @ cs @ cleanup_calls @ [SDL_Quit]) =
          dropWhile (\<lambda>x. x \<noteq> Destruct c) (cs @ cleanup_calls @ [SDL_Quit])"
    by (rule dropWhile_append2) (rule setup_lifecycle(5))
  also have "\<dots> = dropWhile (\<lambda>x. x \<noteq> Destruct c) (cleanup_calls @ [SDL_Quit])"
    by (rule dropWhile_append2) (use assms in blast)
  finally have 2: "dropWhile (\<lambda>x. x \<noteq> Destruct c) (setup_calls cfg @ cs @ cleanup_calls @ [SDL_Quit]) =
      dropWhile (\<lambda>x. x \<noteq> Destruct c) (cleanup_calls @ [SDL_Quit])" .
  have 3: "takeWhile (\<lambda>x. x \<noteq> constructor_of c) (setup_calls cfg @ cs @ cleanup_calls @ [SDL_Quit]) =
           takeWhile (\<lambda>x. x \<noteq> constructor_of c) (setup_calls cfg)"
    by (rule takeWhile_append1[OF setup_lifecycle(3)]) simp
  have 4: "count_list (setup_calls cfg @ cs @ cleanup_calls @ [SDL_Quit]) x =
      count_list (setup_calls cfg) x + count_list cs x + count_list (cleanup_calls @ [SDL_Quit]) x" for x
    by (simp only: count_list_append)
  show ?thesis
    unfolding lifecycle_def 2 3 4
    using 1 setup_lifecycle(1,2,4)[where cfg=cfg and c=c] cleanup_lifecycle[where c=c] by simp
qed

lemma lifecycle_weaken: "lifecycle tr c \<Longrightarrow> lifecycle_started tr c"
  by (simp add: lifecycle_def lifecycle_started_def)

lemma update_game_abort:
  "snd (update_game env inp st) = Abort out \<Longrightarrow> out = DivisionByZero"
  by (auto simp: update_game_def Let_def split: option.splits)

lemma frame_abort:
  assumes "frame cfg env inp st = (cs, Abort out)"
  shows "out = Exited 1 \<or> out = DivisionByZero"
  using assms update_game_abort[of env inp st out]
  by (cases rule: frame_cases[of cfg env inp st]) auto

lemma main_loop_abort:
  "main_loop cfg env inps st = (cs, Abort out) \<Longrightarrow>
   out = Exited 1 \<or> out = DivisionByZero \<or> out = StillRunning"
proof (induction inps arbitrary: st cs)
  case Nil
  then show ?case by (auto split: if_splits)
next
  case (Cons inp inps)
  obtain c1 r1 where fr: "frame cfg env inp st = (c1, r1)" by (cases "frame cfg env inp st")
  show ?case
  proof (cases r1)
    case (Continue st')
    obtain c2 r2 where ml: "main_loop cfg env inps st' = (c2, r2)"
      by (cases "main_loop cfg env inps st'")
    from Cons.prems fr Continue ml have "r2 = Abort out"
      by (auto split: if_splits)
    with ml Cons.IH show ?thesis by blast
  next
    case (Abort o1)
    with Cons.prems fr have "o1 = out" by (auto split: if_splits)
    with frame_abort[of cfg env inp st c1 o1] fr Abort show ?thesis by auto
  qed
qed

text \<open>
  C9, as stated: on every path that constructs the ray casters each is constructed
  once before the loop and destructed once after it. When the first texture cannot be
  locked, both are constructed and neither is destructed.
\<close>

theorem caster_lifecycle_counterexample:
  "initOk env0 \<and> windowOk env0 \<and>
   RayCasterFloatConstruct \<in> set (fst (main cfg0 env0 [in_unlocked])) \<and>
   RayCasterFixedConstruct \<in> set (fst (main cfg0 env0 [in_unlocked])) \<and>
   \<not> lifecycle (fst (main cfg0 env0 [in_unlocked])) FloatCaster \<and>
   \<not> lifecycle (fst (main cfg0 env0 [in_unlocked])) FixedCaster"
  by code_simp


text \<open>
  C9, amended. On every path that constructs the ray casters, each is constructed
  exactly once, before any call of the loop, and destructed at most once, with no call
  of the loop after it. When \<open>main\<close> returns, each is destructed exactly once. When
  the run does not get there (a texture lock fails and \<open>draw_buffer\<close> exits, a
  division by zero, or the loop still runs), no \<open>Destruct\<close> call is made.
\<close>

theorem caster_lifecycle:
  assumes "initOk env" and "windowOk env"
  shows "lifecycle_started (fst (main cfg env inps)) c \<and>
         (snd (main cfg env inps) = Returned 0 \<longrightarrow> lifecycle (fst (main cfg env inps)) c) \<and>
         (snd (main cfg env inps) \<noteq> Returned 0 \<longrightarrow>
            count_list (fst (main cfg env inps)) (Destruct c) = 0)"
proof (cases "main_loop cfg env inps (initial_shell env)")
  case (Pair cs r)
  have n: "x \<noteq> constructor_of c \<and> x \<noteq> Destruct c" if "x \<in> set cs" for x
    using loop_not_lifecycle[of x cfg env inps "initial_shell env" c] that Pair by simp
  show ?thesis
  proof (cases r)
    case (Continue st)
    with Pair assms have m: "main cfg env inps = (setup_calls cfg @ cs @ cleanup_calls @ [SDL_Quit], Returned 0)"
      by (simp add: main_def)
    from lifecycle_returned[of cs c cfg] n lifecycle_weaken show ?thesis
      unfolding m by auto
  next
    case (Abort out)
    with Pair assms have m: "main cfg env inps = (setup_calls cfg @ cs, out)"
      by (simp add: main_def)
    have "out \<noteq> Returned 0"
      using main_loop_abort[of cfg env inps "initial_shell env" cs out] Pair Abort by auto
    from lifecycle_aborted[of cs c cfg] n this show ?thesis
      unfolding m by auto
  qed
qed


theorem caster_lifecycle_witness:
  "initOk env0 \<and> windowOk env0 \<and>
   snd (main cfg0 env0 [in1, in2, in3]) = Returned 0 \<and>
   lifecycle (fst (main cfg0 env0 [in1, in2, in3])) FixedCaster \<and>
   snd (main cfg0 env0 [in_unlocked]) = Exited 1 \<and>
   count_list (fst (main cfg0 env0 [in_unlocked])) (Destruct FixedCaster) = 0"
proof -
  have e: "initOk env0" "windowOk env0" by (simp_all add: env0_def)
  have r: "snd (main cfg0 env0 [in1, in2, in3]) = Returned 0" by code_simp
  have x: "snd (main cfg0 env0 [in_unlocked]) = Exited 1" by code_simp
  show ?thesis
    using caster_lifecycle[OF e, of cfg0 "[in1, in2, in3]" FixedCaster]
      caster_lifecycle[OF e, of cfg0 "[in_unlocked]" FixedCaster] e r x
    by simp
qed


section \<open>Properties of the core\<close>

subsection \<open>\<open>RendererTraceFrame\<close> writes the whole buffer\<close>

lemma cell_index:
  fixes W :: nat
  assumes "x < W"
  shows "(i = y * W + x) = (i mod W = x \<and> i div W = y)"
proof
  assume "i = y * W + x"
  with assms show "i mod W = x \<and> i div W = y" by simp
next
  assume "i mod W = x \<and> i div W = y"
  then have "i div W * W + i mod W = y * W + x" by simp
  then show "i = y * W + x" by (simp only: div_mult_mod_eq)
qed

lemma nth_update_any:
  "j < length xs \<Longrightarrow> xs[k := v] ! j = (if k = j then v else xs ! j)"
  by simp

lemma length_fill_column [simp]: "length (fill_column cfg pal h x rows fb) = length fb"
  by (induction rows) (simp_all add: fill_column_def)

lemma fill_column_Suc:
  "fill_column cfg pal h x (Suc n) fb =
     (fill_column cfg pal h x n fb)[n * SCREEN_WIDTH cfg + x := column_pixel cfg pal h n]"
  by (simp add: fill_column_def)

lemma nth_fill_column:
  assumes "x < SCREEN_WIDTH cfg" and "i < length fb"
  shows "fill_column cfg pal h x rows fb ! i =
     (if i mod SCREEN_WIDTH cfg = x \<and> i div SCREEN_WIDTH cfg < rows
      then column_pixel cfg pal h (i div SCREEN_WIDTH cfg) else fb ! i)"
proof (induction rows)
  case 0
  show ?case by (simp add: fill_column_def)
next
  case (Suc n)
  show ?case
    using assms Suc cell_index[OF assms(1), of i n]
    by (auto simp: fill_column_Suc nth_update_any less_Suc_eq)
qed

lemma length_trace_columns [simp]: "length (trace_columns cfg pal rc ps m cols fb) = length fb"
  by (induction cols) (simp_all add: trace_columns_def)

lemma trace_columns_Suc:
  "trace_columns cfg pal rc ps m (Suc n) fb =
     fill_column cfg pal (rc ps m n) n (SCREEN_HEIGHT cfg) (trace_columns cfg pal rc ps m n fb)"
  by (simp add: trace_columns_def)

lemma nth_trace_columns:
  assumes "cols \<le> SCREEN_WIDTH cfg" and "i < length fb"
  shows "trace_columns cfg pal rc ps m cols fb ! i =
     (if i mod SCREEN_WIDTH cfg < cols \<and> i div SCREEN_WIDTH cfg < SCREEN_HEIGHT cfg
      then column_pixel cfg pal (rc ps m (i mod SCREEN_WIDTH cfg)) (i div SCREEN_WIDTH cfg)
      else fb ! i)"
  using assms(1)
proof (induction cols)
  case 0
  show ?case by (simp add: trace_columns_def)
next
  case (Suc n)
  then have n: "n < SCREEN_WIDTH cfg" and ih: "trace_columns cfg pal rc ps m n fb ! i =
     (if i mod SCREEN_WIDTH cfg < n \<and> i div SCREEN_WIDTH cfg < SCREEN_HEIGHT cfg
      then column_pixel cfg pal (rc ps m (i mod SCREEN_WIDTH cfg)) (i div SCREEN_WIDTH cfg)
      else fb ! i)" by simp_all
  show ?case
    using assms(2) ih
    by (auto simp: trace_columns_Suc nth_fill_column[OF n] less_Suc_eq)
qed

lemma nth_TraceFrame:
  assumes "length fb = SCREEN_WIDTH cfg * SCREEN_HEIGHT cfg"
    and "i < SCREEN_WIDTH cfg * SCREEN_HEIGHT cfg"
  shows "TraceFrame cfg pal rc ps m fb ! i =
     column_pixel cfg pal (rc ps m (i mod SCREEN_WIDTH cfg)) (i div SCREEN_WIDTH cfg)"
proof -
  from assms(2) have w: "0 < SCREEN_WIDTH cfg" by (cases "SCREEN_WIDTH cfg") simp_all
  then have a: "i mod SCREEN_WIDTH cfg < SCREEN_WIDTH cfg" by simp
  from assms(2) have b: "i div SCREEN_WIDTH cfg < SCREEN_HEIGHT cfg"
    by (simp add: less_mult_imp_div_less mult.commute)
  show ?thesis
    using assms a b by (simp add: TraceFrame_def nth_trace_columns)
qed

text \<open>
  C2. A call of \<open>RendererTraceFrame\<close> on a buffer of the screen's size writes every
  pixel: each element of the result is the colour the trace computes for its column
  and row, and the result is the same whatever the buffer held before, so that nothing
  of a previous frame or of the uninitialised array survives.
\<close>

theorem trace_frame_overwrites_every_pixel:
  assumes "length fb = SCREEN_WIDTH cfg * SCREEN_HEIGHT cfg"
  shows "length (TraceFrame cfg pal rc ps m fb) = SCREEN_WIDTH cfg * SCREEN_HEIGHT cfg \<and>
    (\<forall>i < SCREEN_WIDTH cfg * SCREEN_HEIGHT cfg.
       TraceFrame cfg pal rc ps m fb ! i =
         column_pixel cfg pal (rc ps m (i mod SCREEN_WIDTH cfg)) (i div SCREEN_WIDTH cfg)) \<and>
    (\<forall>fb'. length fb' = SCREEN_WIDTH cfg * SCREEN_HEIGHT cfg \<longrightarrow>
       TraceFrame cfg pal rc ps m fb' = TraceFrame cfg pal rc ps m fb)"
proof -
  have l: "length (TraceFrame cfg pal rc ps m b) = length b" for b
    by (simp add: TraceFrame_def)
  have e: "TraceFrame cfg pal rc ps m fb' = TraceFrame cfg pal rc ps m fb"
    if "length fb' = SCREEN_WIDTH cfg * SCREEN_HEIGHT cfg" for fb'
    by (rule nth_equalityI) (simp_all add: l assms that nth_TraceFrame)
  have 1: "length (TraceFrame cfg pal rc ps m fb) = SCREEN_WIDTH cfg * SCREEN_HEIGHT cfg"
    using l[of fb] assms by simp
  have 2: "\<forall>i < SCREEN_WIDTH cfg * SCREEN_HEIGHT cfg.
       TraceFrame cfg pal rc ps m fb ! i =
         column_pixel cfg pal (rc ps m (i mod SCREEN_WIDTH cfg)) (i div SCREEN_WIDTH cfg)"
    using nth_TraceFrame[OF assms] by blast
  show ?thesis using 1 2 e by blast
qed


lemma TraceFrame_sample: "TraceFrame cfg0 pal0 rc0 pose0 map0 [9, 9, 9, 9] = [1, 1, 2, 2]"
  by code_simp

theorem trace_frame_overwrites_every_pixel_witness:
  "length [9, 9, 9, 9 :: 32 word] = SCREEN_WIDTH cfg0 * SCREEN_HEIGHT cfg0 \<and>
   TraceFrame cfg0 pal0 rc0 pose0 map0 [9, 9, 9, 9] = [1, 1, 2, 2] \<and>
   TraceFrame cfg0 pal0 rc0 pose0 map0 [0, 0, 0, 0] = TraceFrame cfg0 pal0 rc0 pose0 map0 [9, 9, 9, 9]"
proof -
  have h: "length [9, 9, 9, 9 :: 32 word] = SCREEN_WIDTH cfg0 * SCREEN_HEIGHT cfg0"
    by (simp add: cfg0_def)
  have h': "length [0, 0, 0, 0 :: 32 word] = SCREEN_WIDTH cfg0 * SCREEN_HEIGHT cfg0"
    by (simp add: cfg0_def)
  show ?thesis
    using trace_frame_overwrites_every_pixel[OF h, of pal0 rc0 pose0 map0] h h' TraceFrame_sample by blast
qed

subsection \<open>\<open>RendererDrawFPS\<close> and the values the shell hands to it\<close>

lemma length_draw_row [simp]: "length (draw_row cfg ro v j cols fb) = length fb"
  by (induction cols) (simp_all add: draw_row_def)

lemma draw_row_Suc:
  "draw_row cfg ro v j (Suc n) fb =
     (draw_row cfg ro v j n fb)[(regionTop ro + j) * SCREEN_WIDTH cfg + (regionLeft ro + n) :=
        glyphPixel ro v n j]"
  by (simp add: draw_row_def)

lemma nth_draw_row:
  assumes "regionLeft ro + cols \<le> SCREEN_WIDTH cfg" and "i < length fb"
    and "\<not> (i div SCREEN_WIDTH cfg = regionTop ro + j \<and> regionLeft ro \<le> i mod SCREEN_WIDTH cfg \<and>
            i mod SCREEN_WIDTH cfg < regionLeft ro + cols)"
  shows "draw_row cfg ro v j cols fb ! i = fb ! i"
  using assms(1,3)
proof (induction cols)
  case 0
  show ?case by (simp add: draw_row_def)
next
  case (Suc n)
  then have x: "regionLeft ro + n < SCREEN_WIDTH cfg" by simp
  from Suc have ih: "draw_row cfg ro v j n fb ! i = fb ! i" by auto
  from Suc.prems(2) cell_index[OF x, of i "regionTop ro + j"]
  have "(regionTop ro + j) * SCREEN_WIDTH cfg + (regionLeft ro + n) \<noteq> i" by auto
  with ih assms(2) show ?case by (simp add: draw_row_Suc nth_update_any)
qed

lemma length_draw_rows [simp]: "length (draw_rows cfg ro v rows fb) = length fb"
  by (induction rows) (simp_all add: draw_rows_def)

lemma draw_rows_Suc:
  "draw_rows cfg ro v (Suc n) fb = draw_row cfg ro v n (regionWidth ro) (draw_rows cfg ro v n fb)"
  by (simp add: draw_rows_def)

lemma nth_draw_rows:
  assumes "regionLeft ro + regionWidth ro \<le> SCREEN_WIDTH cfg" and "i < length fb"
    and "\<not> (regionTop ro \<le> i div SCREEN_WIDTH cfg \<and> i div SCREEN_WIDTH cfg < regionTop ro + rows \<and>
            regionLeft ro \<le> i mod SCREEN_WIDTH cfg \<and>
            i mod SCREEN_WIDTH cfg < regionLeft ro + regionWidth ro)"
  shows "draw_rows cfg ro v rows fb ! i = fb ! i"
  using assms(3)
proof (induction rows)
  case 0
  show ?case by (simp add: draw_rows_def)
next
  case (Suc n)
  then have ih: "draw_rows cfg ro v n fb ! i = fb ! i" by auto
  have "draw_row cfg ro v n (regionWidth ro) (draw_rows cfg ro v n fb) ! i = draw_rows cfg ro v n fb ! i"
    using Suc.prems assms(2) by (intro nth_draw_row[OF assms(1)]) auto
  with ih show ?case by (simp add: draw_rows_Suc)
qed

lemma DrawFPS_outside:
  assumes "DrawFPS cfg ro fb v = Some fb'"
  shows "length fb' = length fb" and "i < length fb \<Longrightarrow> \<not> in_region cfg ro i \<Longrightarrow> fb' ! i = fb ! i"
proof -
  from assms have w: "regionLeft ro + regionWidth ro \<le> SCREEN_WIDTH cfg"
    and f: "fb' = draw_rows cfg ro v (regionHeight ro) fb"
    by (auto simp: DrawFPS_def split: if_splits)
  show "length fb' = length fb" by (simp add: f)
  show "fb' ! i = fb ! i" if "i < length fb" "\<not> in_region cfg ro i"
    unfolding f using that by (intro nth_draw_rows[OF w]) (auto simp: in_region_def)
qed


lemma fps_values_app: "fps_values (xs @ ys) = fps_values xs @ fps_values ys"
  by (simp add: fps_values_def map_filter_app)

lemma fps_values_simps:
  "fps_values [] = []"
  "fps_values (c # cs) = (case fps_value c of None \<Rightarrow> fps_values cs | Some v \<Rightarrow> v # fps_values cs)"
  by (simp_all add: fps_values_def split: option.splits)

lemma fps_values_update_game: "fps_values (fst (update_game env inp st)) = []"
  using update_game_calls[of env inp st] by (auto simp: fps_values_def)

lemma fps_values_frame:
  "fps_values (fst (frame cfg env inp st)) = [displayFPS st, displayFPS st]"
  by (cases rule: frame_cases[of cfg env inp st])
     (simp_all add: fps_values_app fps_values_update_game fps_values_simps
        render_views_def draw_buffer_def)

lemma update_fps_counter:
  assumes "update_fps f t st = Some st'" and "unat (fpsCounter st) + 1 < 60"
  shows "displayFPS st' = displayFPS st" and "unat (fpsCounter st') = unat (fpsCounter st) + 1"
proof -
  have u: "unat (fpsCounter st + 1) = unat (fpsCounter st) + 1"
    using assms(2) by (simp add: unat_word_ariths)
  then have "\<not> 60 \<le> fpsCounter st + 1"
    using assms(2) by (simp add: word_le_nat_alt)
  with assms(1) u show "displayFPS st' = displayFPS st" "unat (fpsCounter st') = unat (fpsCounter st) + 1"
    by (auto simp: update_fps_def Let_def split: if_splits)
qed

lemma frame_fps_counter:
  assumes "frame cfg env inp st = (cs, Continue st')" and "unat (fpsCounter st) + 1 < 60"
  shows "displayFPS st' = displayFPS st" and "unat (fpsCounter st') = unat (fpsCounter st) + 1"
proof -
  from frame_Continue[OF assms(1)] obtain c3 where "update_game env inp st = (c3, Continue st')"
    by blast
  from update_game_Continue(2)[OF this]
  have u: "update_fps (tickFrequency env) (nextCounter inp - tickCounter st)
           ((poll_events (arrived inp) st)\<lparr>tickCounter := nextCounter inp\<rparr>) = Some st'" .
  have p: "fpsCounter ((poll_events (arrived inp) st)\<lparr>tickCounter := nextCounter inp\<rparr>) = fpsCounter st"
     "displayFPS ((poll_events (arrived inp) st)\<lparr>tickCounter := nextCounter inp\<rparr>) = displayFPS st"
    by (simp_all add: poll_events_def split: prod.splits option.splits)
  from update_fps_counter[OF u] assms(2) p
  show "displayFPS st' = displayFPS st" "unat (fpsCounter st') = unat (fpsCounter st) + 1"
    by simp_all
qed

lemma main_loop_fps_zero:
  "displayFPS st = 0 \<Longrightarrow> unat (fpsCounter st) + n = 60 \<Longrightarrow>
   list_all (\<lambda>v. v = 0) (take (2 * n) (fps_values (fst (main_loop cfg env inps st))))"
proof (induction inps arbitrary: st n)
  case Nil
  then show ?case by (simp add: fps_values_def)
next
  case (Cons inp inps)
  obtain cs r where fr: "frame cfg env inp st = (cs, r)" by (cases "frame cfg env inp st")
  have v: "fps_values cs = [0, 0]"
    using fps_values_frame[of cfg env inp st] fr Cons.prems(1) by simp
  show ?case
  proof (cases "isExiting st")
    case True
    then show ?thesis by (simp add: fps_values_def)
  next
    case False
    show ?thesis
    proof (cases r)
      case (Abort out)
      with fr False v show ?thesis by (cases n) simp_all
    next
      case (Continue st')
      obtain cs' r' where ml: "main_loop cfg env inps st' = (cs', r')"
        by (cases "main_loop cfg env inps st'")
      have m: "fst (main_loop cfg env (inp # inps) st) = cs @ cs'"
        using fr False Continue ml by simp
      show ?thesis
      proof (cases n)
        case 0
        then show ?thesis by simp
      next
        case (Suc k)
        show ?thesis
        proof (cases k)
          case 0
          with Suc v m show ?thesis by (simp add: fps_values_app)
        next
          case (Suc j)
          with \<open>n = Suc k\<close> Cons.prems(2) have lt: "unat (fpsCounter st) + 1 < 60" by simp
          from frame_fps_counter[OF fr[unfolded Continue] lt] Cons.prems \<open>n = Suc k\<close>
          have "displayFPS st' = 0" "unat (fpsCounter st') + k = 60" by simp_all
          from Cons.IH[OF this] ml
          have "list_all (\<lambda>v. v = 0) (take (2 * k) (fps_values cs'))" by simp
          with v m \<open>n = Suc k\<close> show ?thesis by (simp add: fps_values_app)
        qed
      qed
    qed
  qed
qed

lemma main_fps_zero:
  "list_all (\<lambda>v. v = 0) (take 120 (fps_values (fst (main cfg env inps))))"
proof -
  have s: "fps_values (setup_calls cfg) = []" "fps_values (cleanup_calls @ [SDL_Quit]) = []"
    by (simp_all add: fps_values_def setup_calls_def cleanup_calls_def)
  have "list_all (\<lambda>v. v = 0) (take (2 * 60) (fps_values (fst (main_loop cfg env inps (initial_shell env)))))"
    by (rule main_loop_fps_zero) (simp_all add: initial_shell_def)
  then have l: "list_all (\<lambda>v. v = 0) (take 120 (fps_values (fst (main_loop cfg env inps (initial_shell env)))))"
    by simp
  show ?thesis
  proof (cases "initOk env \<and> windowOk env")
    case False
    then show ?thesis by (auto simp: main_def fps_values_def)
  next
    case True
    obtain cs r where ml: "main_loop cfg env inps (initial_shell env) = (cs, r)"
      by (cases "main_loop cfg env inps (initial_shell env)")
    from l ml have "list_all (\<lambda>v. v = 0) (take 120 (fps_values cs))" by simp
    with True ml show ?thesis
      by (cases r) (simp_all add: main_def fps_values_app fps_values_simps setup_calls_def
           cleanup_calls_def)
  qed
qed


lemma frame_no_trace_after_fps:
  "\<not> list_ex is_trace (dropWhile (\<lambda>c. fps_value c = None) (fst (frame cfg env inp st)))"
proof -
  obtain rest where r: "fst (frame cfg env inp st) = render_views st @ rest"
    and nt: "\<not> list_ex is_trace rest"
    using frame_calls_shape by blast
  show ?thesis unfolding r using nt by (simp add: render_views_def)
qed

text \<open>
  C8. \<open>RendererDrawFPS\<close> keeps the size of the buffer and changes no pixel outside
  the region of the readout; on a buffer of the screen's size, with the region inside
  the screen, it succeeds for the value 0; the first 120 values the shell hands to it in
  a run, two in each of the first 60 iterations, are 0; and in an iteration no
  \<open>RendererTraceFrame\<close> call comes after a \<open>RendererDrawFPS\<close> call.
\<close>

theorem draw_fps_corner_only:
  "(\<forall>fb'. DrawFPS cfg ro fb v = Some fb' \<longrightarrow>
      length fb' = length fb \<and>
      (\<forall>i < length fb. \<not> in_region cfg ro i \<longrightarrow> fb' ! i = fb ! i)) \<and>
   (length fb = SCREEN_WIDTH cfg * SCREEN_HEIGHT cfg \<and>
    regionLeft ro + regionWidth ro \<le> SCREEN_WIDTH cfg \<and>
    regionTop ro + regionHeight ro \<le> SCREEN_HEIGHT cfg \<longrightarrow>
      DrawFPS cfg ro fb 0 \<noteq> None) \<and>
   list_all (\<lambda>v. v = 0) (take 120 (fps_values (fst (main cfg env inps)))) \<and>
   \<not> list_ex is_trace (dropWhile (\<lambda>c. fps_value c = None) (fst (frame cfg env inp st)))"
proof -
  have a: "length fb' = length fb \<and>
      (\<forall>i < length fb. \<not> in_region cfg ro i \<longrightarrow> fb' ! i = fb ! i)"
    if "DrawFPS cfg ro fb v = Some fb'" for fb'
    using DrawFPS_outside[OF that] by blast
  have b: "DrawFPS cfg ro fb 0 \<noteq> None"
    if "length fb = SCREEN_WIDTH cfg * SCREEN_HEIGHT cfg \<and>
        regionLeft ro + regionWidth ro \<le> SCREEN_WIDTH cfg \<and>
        regionTop ro + regionHeight ro \<le> SCREEN_HEIGHT cfg"
    using that by (simp add: DrawFPS_def)
  show ?thesis
    using a b main_fps_zero[of cfg env inps] frame_no_trace_after_fps[of cfg env inp st]
    by blast
qed

lemma DrawFPS_sample: "DrawFPS cfg0 ro0 [1, 1, 2, 2] 0 = Some [7, 1, 2, 2]"
  by code_simp

theorem draw_fps_corner_only_witness:
  "DrawFPS cfg0 ro0 [1, 1, 2, 2] 0 = Some [7, 1, 2, 2] \<and>
   \<not> in_region cfg0 ro0 3 \<and> [7, 1, 2, 2 :: 32 word] ! 3 = [1, 1, 2, 2] ! 3 \<and>
   fps_values (fst (main cfg0 env0 [in1, in2, in3])) = [0, 0, 0, 0, 0, 0]"
proof -
  have r: "\<not> in_region cfg0 ro0 3" by code_simp
  have f: "fps_values (fst (main cfg0 env0 [in1, in2, in3])) = [0, 0, 0, 0, 0, 0]" by code_simp
  show ?thesis
    using draw_fps_corner_only[of cfg0 ro0 "[1, 1, 2, 2]" 0 env0 "[in1, in2, in3]"]
      DrawFPS_sample r f
    by simp
qed

subsection \<open>\<open>GameMove\<close> keeps the position out of solid cells\<close>

lemma GameMove_spec_keeps_out:
  "\<not> in_solid g \<Longrightarrow> \<not> in_solid (GameMove_spec mo g m r t)"
  by (auto simp: GameMove_spec_def in_solid_def Let_def split: prod.splits)

lemma moves_keep_out: "\<not> in_solid g \<Longrightarrow> \<not> in_solid (moves mo ms g)"
  by (induction ms arbitrary: g) (auto simp: GameMove_spec_keeps_out)

lemma GameMove_spec_facing:
  "facing (pose (GameMove_spec mo g m r t)) = facing (pose g) + t * angularSpeed mo * of_int r"
  by (simp add: GameMove_spec_def Let_def split: prod.splits)

lemma GameMove_spec_rejects:
  assumes "solid_at (worldMap g)
             (posX (pose g) + of_int m * t * moveSpeed mo * fst (heading mo (facing (pose g))))
             (posY (pose g) + of_int m * t * moveSpeed mo * snd (heading mo (facing (pose g))))"
  shows "posX (pose (GameMove_spec mo g m r t)) = posX (pose g)"
    and "posY (pose (GameMove_spec mo g m r t)) = posY (pose g)"
  using assms by (auto simp: GameMove_spec_def Let_def split: prod.splits)

text \<open>
  C3. From a game state whose position is not in a solid cell, after any sequence of
  \<open>GameMove\<close> calls and one more, with any directions and times, the position is not
  in a solid cell. A translation whose target lies in a solid cell leaves the position
  as it was, and the facing angle turns by time, angular speed and rotation direction
  whether or not the translation was rejected.
\<close>

theorem position_never_in_solid_cell:
  assumes "\<not> in_solid g0"
  shows "\<not> in_solid (GameMove_spec mo (moves mo ms g0) m r t) \<and>
    facing (pose (GameMove_spec mo g m r t)) = facing (pose g) + t * angularSpeed mo * of_int r \<and>
    (solid_at (worldMap g)
       (posX (pose g) + of_int m * t * moveSpeed mo * fst (heading mo (facing (pose g))))
       (posY (pose g) + of_int m * t * moveSpeed mo * snd (heading mo (facing (pose g)))) \<longrightarrow>
     posX (pose (GameMove_spec mo g m r t)) = posX (pose g) \<and>
     posY (pose (GameMove_spec mo g m r t)) = posY (pose g))"
proof -
  have a: "\<not> in_solid (GameMove_spec mo (moves mo ms g0) m r t)"
    by (rule GameMove_spec_keeps_out[OF moves_keep_out[OF assms]])
  show ?thesis
    using a GameMove_spec_facing[of mo g m r t] GameMove_spec_rejects[of g m t mo r]
    by simp
qed

lemma game0_free: "\<not> in_solid game0"
  by (simp add: in_solid_def game0_def pose0_def map0_def solid_at_def cell_at_def)

lemma move_blocked_sample: "pose (GameMove_spec mo0 game0 1 1 1) = \<lparr>posX = 3 / 2, posY = 3 / 2, facing = 1\<rparr>"
  by (simp add: GameMove_spec_def Let_def mo0_def in_solid_def game0_def pose0_def map0_def solid_at_def cell_at_def)

lemma move_free_sample: "pose (GameMove_spec mo0 game0 1 0 (1/4)) = \<lparr>posX = 7 / 4, posY = 3 / 2, facing = 0\<rparr>"
  by (simp add: GameMove_spec_def Let_def mo0_def in_solid_def game0_def pose0_def map0_def solid_at_def cell_at_def)


lemma blocked_sample:
  "solid_at (worldMap game0)
     (posX (pose game0) + of_int 1 * 1 * moveSpeed mo0 * fst (heading mo0 (facing (pose game0))))
     (posY (pose game0) + of_int 1 * 1 * moveSpeed mo0 * snd (heading mo0 (facing (pose game0))))"
  by (simp add: mo0_def game0_def pose0_def map0_def solid_at_def cell_at_def)

theorem position_never_in_solid_cell_witness:
  "\<not> in_solid game0 \<and>
   \<not> in_solid (GameMove_spec mo0 (moves mo0 [(1, 0, 1 / 4), (1, 1, 1)] game0) 1 1 1) \<and>
   pose (GameMove_spec mo0 game0 1 0 (1 / 4)) = \<lparr>posX = 7 / 4, posY = 3 / 2, facing = 0\<rparr> \<and>
   pose (GameMove_spec mo0 game0 1 1 1) = \<lparr>posX = 3 / 2, posY = 3 / 2, facing = 1\<rparr> \<and>
   posX (pose (GameMove_spec mo0 game0 1 1 1)) = posX (pose game0)"
  using position_never_in_solid_cell[OF game0_free, where mo = mo0 and ms = "[(1, 0, 1 / 4), (1, 1, 1)]"
      and m = 1 and r = 1 and t = 1 and g = game0]
    game0_free move_blocked_sample move_free_sample blocked_sample
  by simp


end
